theory Spec2Isabelle
  imports Main
begin

section \<open>Tokens and the AST (parser.ts, lines 1-163)\<close>

text \<open>
  The token module is imported by parser.ts and is not part of the sources at hand.
  The parser reads three things of a token: \<^verbatim>\<open>getTokenType()\<close>, \<^verbatim>\<open>getLexeme()\<close> and
  \<^verbatim>\<open>getLiteral()\<close>. A token is modelled as exactly these three fields; the type tags are
  the seven members of \<^verbatim>\<open>TokenType\<close> that the parser and its tests mention.
\<close>

datatype TokenType = LeftBracket | RightBracket | Symbol | Number | String | Boolean | Eof

text \<open>
  The decoded payload of a token. The parser only copies it into a literal node, so its
  exact shape does not matter; numbers are written as integers.
\<close>

datatype literal = NumberValue int | StringValue string | BooleanValue bool | NoValue

datatype Token = Token (getTokenType: TokenType) (getLexeme: string) (getLiteral: literal)

text \<open>
  The value of a literal node: either the payload of a token, or \<^verbatim>\<open>Parser.NULL_VALUE\<close>, the
  array object \<^verbatim>\<open>[]\<close> created once by the parser class (line 166).
\<close>

datatype val = NULL_VALUE | Decoded literal

text \<open>
  The subclasses of \<^verbatim>\<open>Expr\<close>. The alternative of an \<^verbatim>\<open>IfExpr\<close> is \<^verbatim>\<open>undefined\<close> when the
  parser never assigned it (\<open>None\<close>).
\<close>

datatype Expr =
    CallExpr Expr "Expr list"
  | SymbolExpr Token
  | LiteralExpr val
  | IfExpr Expr Expr "Expr option"
  | DefineExpr Token Expr
  | SetExpr Token Expr
  | LetExpr "LetBindingNode list" "Expr list"
  | LambdaExpr "Token list" "Expr list"
and LetBindingNode = LetBindingNode Token Expr

section \<open>Errors and results\<close>

text \<open>
  The two messages of the parser's \<^verbatim>\<open>SyntaxError\<close>s, with the token types that the template
  strings interpolate:
  \<^item> \<open>UnexpectedExpected p t\<close> is \<^verbatim>\<open>`Unexpected token ${p}, expected ${t}`\<close> (consume);
  \<^item> \<open>Unexpected t\<close> is \<^verbatim>\<open>`Unexpected token: ${t}`\<close> (atom).

  \<open>TypeError\<close> is what JavaScript raises when a method is called on \<^verbatim>\<open>undefined\<close>, the
  value of an array read outside the array.
\<close>

datatype message = UnexpectedExpected TokenType TokenType | Unexpected TokenType

datatype error = SyntaxError message | TypeError

text \<open>
  The only mutable state of the parser is the cursor \<^verbatim>\<open>this.current\<close>. Every operation takes
  the cursor and returns what it threw or returned together with the cursor it left behind.
\<close>

type_synonym 'a result = "(error + 'a) \<times> nat"

section \<open>Cursor operations (parser.ts, lines 181-187, 206-216, 239-250, 267-269)\<close>

definition peek :: "Token list \<Rightarrow> nat \<Rightarrow> Token option" where
  "peek tokens current = (if current < length tokens then Some (tokens ! current) else None)"

definition isAtEnd :: "Token list \<Rightarrow> nat \<Rightarrow> bool result" where
  "isAtEnd tokens current =
     (case peek tokens current of
        None \<Rightarrow> (Inl TypeError, current)
      | Some t \<Rightarrow> (Inr (getTokenType t = Eof), current))"

definition check :: "Token list \<Rightarrow> nat \<Rightarrow> TokenType \<Rightarrow> bool result" where
  "check tokens current tokenType =
     (case peek tokens current of
        None \<Rightarrow> (Inl TypeError, current)
      | Some t \<Rightarrow> (Inr (getTokenType t = tokenType), current))"

definition match :: "Token list \<Rightarrow> nat \<Rightarrow> TokenType \<Rightarrow> bool result" where
  "match tokens current tokenType =
     (case check tokens current tokenType of
        (Inl e, c) \<Rightarrow> (Inl e, c)
      | (Inr True, c) \<Rightarrow> (Inr True, c + 1)
      | (Inr False, c) \<Rightarrow> (Inr False, c))"

text \<open>
  \<^verbatim>\<open>advance\<close> and \<^verbatim>\<open>previous\<close> read the array without calling a method on what they read, so
  outside the array they return \<^verbatim>\<open>undefined\<close> (\<open>None\<close>) and do not throw.
\<close>

definition advance :: "Token list \<Rightarrow> nat \<Rightarrow> Token option \<times> nat" where
  "advance tokens current = (peek tokens current, current + 1)"

definition previous :: "Token list \<Rightarrow> nat \<Rightarrow> Token option" where
  "previous tokens current = (if 0 < current then peek tokens (current - 1) else None)"

text \<open>
  \<^verbatim>\<open>consume\<close> returns the token that \<^verbatim>\<open>advance\<close> returns. After a successful \<^verbatim>\<open>check\<close> that
  token exists; the branch for \<open>None\<close> is there for totality and is never taken (lemmas
  \<open>consume_hit\<close>, \<open>consume_miss\<close>, \<open>consume_miss_first\<close> and \<open>consume_out\<close> below cover every
  case). The message of the failure reads \<^verbatim>\<open>this.previous().getTokenType()\<close>, a method call
  that throws when there is no previous token.
\<close>

definition consume :: "Token list \<Rightarrow> nat \<Rightarrow> TokenType \<Rightarrow> Token result" where
  "consume tokens current tokenType =
     (case check tokens current tokenType of
        (Inl e, c) \<Rightarrow> (Inl e, c)
      | (Inr True, c) \<Rightarrow>
          (case advance tokens c of
             (Some t, c') \<Rightarrow> (Inr t, c')
           | (None, c') \<Rightarrow> (Inl TypeError, c'))
      | (Inr False, c) \<Rightarrow>
          (case previous tokens c of
             None \<Rightarrow> (Inl TypeError, c)
           | Some p \<Rightarrow> (Inl (SyntaxError (UnexpectedExpected (getTokenType p) tokenType)), c)))"

section \<open>Atoms (parser.ts, lines 252-265)\<close>

text \<open>
  \<^verbatim>\<open>switch (true)\<close> evaluates the case expressions in order and stops at the first that is
  \<^verbatim>\<open>true\<close>; the three literal cases share one body. After a successful \<^verbatim>\<open>match\<close> the
  previous token exists, so the branches for \<open>None\<close> of \<^verbatim>\<open>previous\<close> are never taken (lemmas
  \<open>atom_symbol\<close>, \<open>atom_literal_token\<close>, \<open>atom_other\<close> and \<open>atom_out\<close> below cover every case).
\<close>

definition atom_literal :: "Token list \<Rightarrow> nat \<Rightarrow> Expr result" where
  "atom_literal tokens current =
     (case previous tokens current of
        None \<Rightarrow> (Inl TypeError, current)
      | Some t \<Rightarrow> (Inr (LiteralExpr (Decoded (getLiteral t))), current))"

definition atom :: "Token list \<Rightarrow> nat \<Rightarrow> Expr result" where
  "atom tokens current =
     (case match tokens current Symbol of
        (Inl e, c) \<Rightarrow> (Inl e, c)
      | (Inr True, c) \<Rightarrow>
          (case previous tokens c of
             None \<Rightarrow> (Inl TypeError, c)
           | Some t \<Rightarrow> (Inr (SymbolExpr t), c))
      | (Inr False, c) \<Rightarrow>
     (case match tokens c Number of
        (Inl e, c) \<Rightarrow> (Inl e, c)
      | (Inr True, c) \<Rightarrow> atom_literal tokens c
      | (Inr False, c) \<Rightarrow>
     (case match tokens c String of
        (Inl e, c) \<Rightarrow> (Inl e, c)
      | (Inr True, c) \<Rightarrow> atom_literal tokens c
      | (Inr False, c) \<Rightarrow>
     (case match tokens c Boolean of
        (Inl e, c) \<Rightarrow> (Inl e, c)
      | (Inr True, c) \<Rightarrow> atom_literal tokens c
      | (Inr False, c) \<Rightarrow>
     (case peek tokens c of
        None \<Rightarrow> (Inl TypeError, c)
      | Some t \<Rightarrow> (Inl (SyntaxError (Unexpected (getTokenType t))), c))))))"

section \<open>The parameter loop of lambda (parser.ts, lines 316-319)\<close>

text \<open>
  \<^verbatim>\<open>while (!this.match(TokenType.RightBracket)) params.push(this.consume(TokenType.Symbol))\<close>,
  with the array built so far as last argument. Every turn of the loop that does not end it
  consumes a token, so the loop ends; outside the token array \<^verbatim>\<open>match\<close> throws.
\<close>

function lambda_params :: "Token list \<Rightarrow> nat \<Rightarrow> Token list \<Rightarrow> (Token list) result" where
  "lambda_params tokens current params =
     (case match tokens current RightBracket of
        (Inl e, c) \<Rightarrow> (Inl e, c)
      | (Inr True, c) \<Rightarrow> (Inr params, c)
      | (Inr False, c) \<Rightarrow>
          (case consume tokens c Symbol of
             (Inl e, c') \<Rightarrow> (Inl e, c')
           | (Inr t, c') \<Rightarrow> lambda_params tokens c' (params @ [t])))"
  by pat_completeness auto
termination
proof (relation "measure (\<lambda>(tokens, current, params). length tokens - current)")
qed (auto simp: match_def consume_def check_def advance_def peek_def
      split: if_splits option.splits bool.splits prod.splits sum.splits)

declare lambda_params.simps [simp del]

section \<open>Expressions (parser.ts, lines 189-204, 218-237, 271-327)\<close>

text \<open>
  \<^verbatim>\<open>expression\<close> and the parsers of the bracketed forms call each other, and nothing in their
  text bounds the depth of the calls. They are defined by recursion on a number of calls still
  allowed: the result \<open>None\<close> says that this number was used up before the function returned or
  threw. That enough calls are always allowed is a theorem below, not a part of the model.

  \<open>and_then\<close> is the sequencing of two statements: the second runs from the cursor the first
  left, unless the first threw.
\<close>

definition and_then :: "'a result option \<Rightarrow> ('a \<Rightarrow> nat \<Rightarrow> 'b result option) \<Rightarrow> 'b result option" where
  "and_then m f =
     (case m of
        None \<Rightarrow> None
      | Some (Inl e, c) \<Rightarrow> Some (Inl e, c)
      | Some (Inr x, c) \<Rightarrow> f x c)"

text \<open>
  The loops \<^verbatim>\<open>while (!this.match(TokenType.RightBracket)) xs.push(this.expression())\<close> of
  \<^verbatim>\<open>call\<close> (arguments), \<^verbatim>\<open>let\<close> (body) and \<^verbatim>\<open>lambda\<close> (body) are the same loop; it is
  \<open>expression_loop\<close>, with the array built so far as its last argument. \<open>binding_loop\<close> is the
  loop of \<^verbatim>\<open>let\<close> over \<^verbatim>\<open>letBinding\<close>.
\<close>

function expression :: "nat \<Rightarrow> Token list \<Rightarrow> nat \<Rightarrow> Expr result option"
  and call :: "nat \<Rightarrow> Token list \<Rightarrow> nat \<Rightarrow> Expr result option"
  and expression_loop :: "nat \<Rightarrow> Token list \<Rightarrow> nat \<Rightarrow> Expr list \<Rightarrow> (Expr list) result option"
  and if_form :: "nat \<Rightarrow> Token list \<Rightarrow> nat \<Rightarrow> Expr result option"
  and define_form :: "nat \<Rightarrow> Token list \<Rightarrow> nat \<Rightarrow> Expr result option"
  and set_form :: "nat \<Rightarrow> Token list \<Rightarrow> nat \<Rightarrow> Expr result option"
  and let_form :: "nat \<Rightarrow> Token list \<Rightarrow> nat \<Rightarrow> Expr result option"
  and binding_loop :: "nat \<Rightarrow> Token list \<Rightarrow> nat \<Rightarrow> LetBindingNode list \<Rightarrow> (LetBindingNode list) result option"
  and letBinding :: "nat \<Rightarrow> Token list \<Rightarrow> nat \<Rightarrow> LetBindingNode result option"
  and lambda_form :: "nat \<Rightarrow> Token list \<Rightarrow> nat \<Rightarrow> Expr result option"
where
  "expression 0 tokens current = None"
| "expression (Suc n) tokens current =
     and_then (Some (match tokens current LeftBracket)) (\<lambda>opened c.
       if opened then
         and_then (Some (match tokens c RightBracket)) (\<lambda>closed c1.
           if closed then Some (Inr (LiteralExpr NULL_VALUE), c1)
           else
             (case peek tokens c1 of
                None \<Rightarrow> Some (Inl TypeError, c1)
              | Some token \<Rightarrow>
                  if getLexeme token = ''if'' then if_form n tokens c1
                  else if getLexeme token = ''define'' then define_form n tokens c1
                  else if getLexeme token = ''set!'' then set_form n tokens c1
                  else if getLexeme token = ''let'' then let_form n tokens c1
                  else if getLexeme token = ''lambda'' then lambda_form n tokens c1
                  else call n tokens c1))
       else Some (atom tokens c))"
| "call 0 tokens current = None"
| "call (Suc n) tokens current =
     and_then (expression n tokens current) (\<lambda>callee c.
     and_then (expression_loop n tokens c []) (\<lambda>args c1.
     Some (Inr (CallExpr callee args), c1)))"
| "expression_loop 0 tokens current xs = None"
| "expression_loop (Suc n) tokens current xs =
     and_then (Some (match tokens current RightBracket)) (\<lambda>closed c.
       if closed then Some (Inr xs, c)
       else and_then (expression n tokens c) (\<lambda>x c1. expression_loop n tokens c1 (xs @ [x])))"
| "if_form 0 tokens current = None"
| "if_form (Suc n) tokens current =
     (case advance tokens current of (_, c) \<Rightarrow>
     and_then (expression n tokens c) (\<lambda>test c1.
     and_then (expression n tokens c1) (\<lambda>consequent c2.
     and_then (Some (match tokens c2 RightBracket)) (\<lambda>closed c3.
     and_then (if \<not> closed
               then and_then (expression n tokens c3) (\<lambda>x c4. Some (Inr (Some x), c4))
               else Some (Inr None, c3)) (\<lambda>alternative c4.
     and_then (Some (consume tokens c4 RightBracket)) (\<lambda>_ c5.
     Some (Inr (IfExpr test consequent alternative), c5)))))))"
| "define_form 0 tokens current = None"
| "define_form (Suc n) tokens current =
     (case advance tokens current of (_, c) \<Rightarrow>
     and_then (Some (consume tokens c Symbol)) (\<lambda>name c1.
     and_then (expression n tokens c1) (\<lambda>v c2.
     and_then (Some (consume tokens c2 RightBracket)) (\<lambda>_ c3.
     Some (Inr (DefineExpr name v), c3)))))"
| "set_form 0 tokens current = None"
| "set_form (Suc n) tokens current =
     (case advance tokens current of (_, c) \<Rightarrow>
     and_then (Some (consume tokens c Symbol)) (\<lambda>name c1.
     and_then (expression n tokens c1) (\<lambda>v c2.
     and_then (Some (consume tokens c2 RightBracket)) (\<lambda>_ c3.
     Some (Inr (SetExpr name v), c3)))))"
| "let_form 0 tokens current = None"
| "let_form (Suc n) tokens current =
     (case advance tokens current of (_, c) \<Rightarrow>
     and_then (Some (consume tokens c LeftBracket)) (\<lambda>_ c1.
     and_then (binding_loop n tokens c1 []) (\<lambda>bindings c2.
     and_then (expression_loop n tokens c2 []) (\<lambda>body c3.
     Some (Inr (LetExpr bindings body), c3)))))"
| "binding_loop 0 tokens current bs = None"
| "binding_loop (Suc n) tokens current bs =
     and_then (Some (match tokens current RightBracket)) (\<lambda>closed c.
       if closed then Some (Inr bs, c)
       else and_then (letBinding n tokens c) (\<lambda>b c1. binding_loop n tokens c1 (bs @ [b])))"
| "letBinding 0 tokens current = None"
| "letBinding (Suc n) tokens current =
     and_then (Some (consume tokens current LeftBracket)) (\<lambda>_ c.
     and_then (Some (consume tokens c Symbol)) (\<lambda>name c1.
     and_then (expression n tokens c1) (\<lambda>v c2.
     and_then (Some (consume tokens c2 RightBracket)) (\<lambda>_ c3.
     Some (Inr (LetBindingNode name v), c3)))))"
| "lambda_form 0 tokens current = None"
| "lambda_form (Suc n) tokens current =
     (case advance tokens current of (_, c) \<Rightarrow>
     and_then (Some (consume tokens c LeftBracket)) (\<lambda>_ c1.
     and_then (Some (lambda_params tokens c1 [])) (\<lambda>params c2.
     and_then (expression_loop n tokens c2 []) (\<lambda>body c3.
     Some (Inr (LambdaExpr params body), c3)))))"
  by pat_completeness auto

text \<open>Every call passes on one less than the number of calls it was allowed.\<close>

termination
  by (relation "measure (case_sum
        (case_sum (case_sum fst fst) (case_sum fst (case_sum fst fst)))
        (case_sum (case_sum fst fst) (case_sum fst (case_sum fst fst))))") simp_all

section \<open>The top-level loop (parser.ts, lines 172-179)\<close>

fun parse_loop :: "nat \<Rightarrow> Token list \<Rightarrow> nat \<Rightarrow> Expr list \<Rightarrow> (Expr list) result option" where
  "parse_loop 0 tokens current expressions = None"
| "parse_loop (Suc n) tokens current expressions =
     (case isAtEnd tokens current of
        (Inl e, c) \<Rightarrow> Some (Inl e, c)
      | (Inr True, c) \<Rightarrow> Some (Inr expressions, c)
      | (Inr False, c) \<Rightarrow>
          and_then (expression n tokens c) (\<lambda>expr c1. parse_loop n tokens c1 (expressions @ [expr])))"

text \<open>A new parser starts with \<^verbatim>\<open>current = 0\<close>.\<close>

definition parse :: "nat \<Rightarrow> Token list \<Rightarrow> (Expr list) result option" where
  "parse n tokens = parse_loop n tokens 0 []"

section \<open>The input contract\<close>

text \<open>The five lexemes that \<^verbatim>\<open>expression\<close> compares the head of a bracketed form with.\<close>

definition is_keyword :: "string \<Rightarrow> bool" where
  "is_keyword lexeme \<longleftrightarrow>
     lexeme = ''if'' \<or> lexeme = ''define'' \<or> lexeme = ''set!'' \<or> lexeme = ''let'' \<or> lexeme = ''lambda''"

text \<open>
  Modelled from the spec: the scanner and the token module are not among the sources, so what
  the parser is given is taken from section 6 of the specification: a finite sequence of
  tokens whose final element is the one end-of-input token. The lexeme of a token is the source
  text it was read from; the end-of-input token was read from no text, and in particular its
  lexeme is none of the five keywords.
\<close>

definition well_formed :: "Token list \<Rightarrow> bool" where
  "well_formed tokens \<longleftrightarrow>
     tokens \<noteq> [] \<and> getTokenType (last tokens) = Eof \<and>
     (\<forall>t \<in> set (butlast tokens). getTokenType t \<noteq> Eof) \<and>
     \<not> is_keyword (getLexeme (last tokens))"

section \<open>Reasoning about results\<close>

text \<open>
  \<open>yields m E Q\<close>: the computation \<open>m\<close> was allowed enough calls, and what it threw satisfies
  \<open>E\<close> or what it returned satisfies \<open>Q\<close> (both also see the cursor left behind).
\<close>

definition yields :: "'a result option \<Rightarrow> (error \<Rightarrow> nat \<Rightarrow> bool) \<Rightarrow> ('a \<Rightarrow> nat \<Rightarrow> bool) \<Rightarrow> bool" where
  "yields m E Q \<longleftrightarrow>
     (case m of
        None \<Rightarrow> False
      | Some (Inl e, c) \<Rightarrow> E e c
      | Some (Inr x, c) \<Rightarrow> Q x c)"

text \<open>\<open>fuel_le a b\<close>: whatever \<open>a\<close> computed, \<open>b\<close> computed the same.\<close>

definition fuel_le :: "'a result option \<Rightarrow> 'a result option \<Rightarrow> bool" where
  "fuel_le a b \<longleftrightarrow> (a = None \<or> a = b)"

text \<open>
  \<open>thrown_here ts e c\<close>: the error \<open>e\<close> is one that a cursor operation throws at cursor \<open>c\<close>. The
  message of \<^verbatim>\<open>atom\<close> names the type of the token at the cursor; the message of \<^verbatim>\<open>consume\<close>
  names the type of the token before the cursor and a type that the token at the cursor does
  not have.
\<close>

definition thrown_here :: "Token list \<Rightarrow> error \<Rightarrow> nat \<Rightarrow> bool" where
  "thrown_here ts e c \<longleftrightarrow>
     (case e of
        TypeError \<Rightarrow> True
      | SyntaxError (Unexpected t) \<Rightarrow> c < length ts \<and> t = getTokenType (ts ! c)
      | SyntaxError (UnexpectedExpected p t) \<Rightarrow>
          0 < c \<and> c < length ts \<and> p = getTokenType (ts ! (c - 1)) \<and> getTokenType (ts ! c) \<noteq> t)"

text \<open>
  What the parsers that start at cursor \<open>c\<close> promise about the cursor \<open>c'\<close> they leave: it never
  moves back, and it moves forward when they return. What they throw was thrown by a cursor
  operation at the cursor they leave. When the input is well formed and the condition \<open>g\<close> on
  the starting cursor holds, the cursor stays inside the token array and nothing thrown is a
  \<open>TypeError\<close>.
\<close>

definition post_throw :: "Token list \<Rightarrow> bool \<Rightarrow> nat \<Rightarrow> error \<Rightarrow> nat \<Rightarrow> bool" where
  "post_throw ts g c e c' \<longleftrightarrow>
     c \<le> c' \<and> thrown_here ts e c' \<and>
     (well_formed ts \<and> g \<longrightarrow> c' < length ts \<and> e \<noteq> TypeError)"

definition post_return :: "Token list \<Rightarrow> bool \<Rightarrow> nat \<Rightarrow> 'a \<Rightarrow> nat \<Rightarrow> bool" where
  "post_return ts g c x c' \<longleftrightarrow> c < c' \<and> (well_formed ts \<and> g \<longrightarrow> c' < length ts)"

section \<open>Lambda nodes with symbol parameters only\<close>

text \<open>
  \<open>symbol_params e\<close>: in every \<^verbatim>\<open>Lambda\<close> node of the tree \<open>e\<close>, every parameter is a symbol
  token.
\<close>

fun symbol_params :: "Expr \<Rightarrow> bool"
  and symbol_params_binding :: "LetBindingNode \<Rightarrow> bool"
where
  "symbol_params (CallExpr callee args) \<longleftrightarrow>
     symbol_params callee \<and> (\<forall>a \<in> set args. symbol_params a)"
| "symbol_params (SymbolExpr t) \<longleftrightarrow> True"
| "symbol_params (LiteralExpr v) \<longleftrightarrow> True"
| "symbol_params (IfExpr test consequent alternative) \<longleftrightarrow>
     symbol_params test \<and> symbol_params consequent \<and>
     (case alternative of None \<Rightarrow> True | Some a \<Rightarrow> symbol_params a)"
| "symbol_params (DefineExpr name v) \<longleftrightarrow> symbol_params v"
| "symbol_params (SetExpr name v) \<longleftrightarrow> symbol_params v"
| "symbol_params (LetExpr bindings body) \<longleftrightarrow>
     (\<forall>b \<in> set bindings. symbol_params_binding b) \<and> (\<forall>x \<in> set body. symbol_params x)"
| "symbol_params (LambdaExpr params body) \<longleftrightarrow>
     (\<forall>p \<in> set params. getTokenType p = Symbol) \<and> (\<forall>x \<in> set body. symbol_params x)"
| "symbol_params_binding (LetBindingNode name v) \<longleftrightarrow> symbol_params v"

section \<open>Nested calls as the specification writes them\<close>

text \<open>
  These definitions follow the grammar of section 4.1 of the specification, not the code:
  \<^verbatim>\<open>call := expression expression* ")"\<close> after an opening bracket, and
  \<^verbatim>\<open>atom := SYMBOL | NUMBER | STRING | BOOLEAN\<close>. A \<open>spec_form\<close> is a nested call as written: an
  atom, or an opening bracket, a callee, arguments and a closing bracket. \<open>spec_tokens\<close> is the
  token sequence it is written as, and \<open>spec_ast\<close> is the tree with the same nesting, the
  arguments in the order written. \<open>spec_call\<close> says that the brackets are brackets, the atoms
  are atoms, and no call starts with a token that reads as a keyword (it would be a special
  form, not a call).
\<close>

datatype spec_form = Atom Token | Form Token spec_form "spec_form list" Token

fun spec_tokens :: "spec_form \<Rightarrow> Token list" where
  "spec_tokens (Atom t) = [t]"
| "spec_tokens (Form l f args r) = l # spec_tokens f @ concat (map spec_tokens args) @ [r]"

fun spec_ast :: "spec_form \<Rightarrow> Expr" where
  "spec_ast (Atom t) =
     (if getTokenType t = Symbol then SymbolExpr t else LiteralExpr (Decoded (getLiteral t)))"
| "spec_ast (Form l f args r) = CallExpr (spec_ast f) (map spec_ast args)"

fun spec_call :: "spec_form \<Rightarrow> bool" where
  "spec_call (Atom t) \<longleftrightarrow> getTokenType t \<in> {Symbol, Number, String, Boolean}"
| "spec_call (Form l f args r) \<longleftrightarrow>
     getTokenType l = LeftBracket \<and> getTokenType r = RightBracket \<and>
     \<not> is_keyword (getLexeme (hd (spec_tokens f))) \<and>
     spec_call f \<and> (\<forall>a \<in> set args. spec_call a)"

text \<open>
  \<open>parses_back s\<close>: wherever the tokens of \<open>s\<close> stand in an input, \<^verbatim>\<open>expression\<close> called at
  their first token returns the tree of \<open>s\<close> and leaves the cursor behind their last token,
  once enough calls are allowed.
\<close>

definition parses_back :: "spec_form \<Rightarrow> bool" where
  "parses_back s \<longleftrightarrow>
     (\<exists>k. \<forall>n \<ge> k. \<forall>pre post.
        expression n (pre @ spec_tokens s @ post) (length pre) =
          Some (Inr (spec_ast s), length pre + length (spec_tokens s)))"

section \<open>Example tokens\<close>

text \<open>
  The tokens of the inputs used as examples, with the text they were read from as lexeme and
  the empty text for the end of the input.
\<close>

abbreviation LP :: Token where
  "LP \<equiv> Token LeftBracket ''('' NoValue"

abbreviation RP :: Token where
  "RP \<equiv> Token RightBracket '')'' NoValue"

abbreviation EOF :: Token where
  "EOF \<equiv> Token Eof [] NoValue"

abbreviation SYM :: "string \<Rightarrow> Token" where
  "SYM s \<equiv> Token Symbol s NoValue"

abbreviation NUM :: "string \<Rightarrow> int \<Rightarrow> Token" where
  "NUM s i \<equiv> Token Number s (NumberValue i)"

section \<open>Cursor operations on a known token\<close>

lemma peek_in: "c < length ts \<Longrightarrow> peek ts c = Some (ts ! c)"
  by (simp add: peek_def)

lemma peek_out: "length ts \<le> c \<Longrightarrow> peek ts c = None"
  by (simp add: peek_def)

lemma match_hit: "c < length ts \<Longrightarrow> getTokenType (ts ! c) = ty \<Longrightarrow> match ts c ty = (Inr True, Suc c)"
  by (simp add: match_def check_def peek_def)

lemma match_miss: "c < length ts \<Longrightarrow> getTokenType (ts ! c) \<noteq> ty \<Longrightarrow> match ts c ty = (Inr False, c)"
  by (simp add: match_def check_def peek_def)

lemma match_out: "length ts \<le> c \<Longrightarrow> match ts c ty = (Inl TypeError, c)"
  by (simp add: match_def check_def peek_def)

lemma consume_hit: "c < length ts \<Longrightarrow> getTokenType (ts ! c) = ty \<Longrightarrow> consume ts c ty = (Inr (ts ! c), Suc c)"
  by (simp add: consume_def check_def peek_def advance_def)

lemma consume_miss:
  "c < length ts \<Longrightarrow> getTokenType (ts ! c) \<noteq> ty \<Longrightarrow> 0 < c \<Longrightarrow>
   consume ts c ty = (Inl (SyntaxError (UnexpectedExpected (getTokenType (ts ! (c - 1))) ty)), c)"
  by (simp add: consume_def check_def peek_def previous_def)

lemma consume_miss_first:
  "0 < length ts \<Longrightarrow> getTokenType (ts ! 0) \<noteq> ty \<Longrightarrow> consume ts 0 ty = (Inl TypeError, 0)"
  by (simp add: consume_def check_def peek_def previous_def)

lemma consume_out: "length ts \<le> c \<Longrightarrow> consume ts c ty = (Inl TypeError, c)"
  by (simp add: consume_def check_def peek_def)

lemma atom_symbol:
  "c < length ts \<Longrightarrow> getTokenType (ts ! c) = Symbol \<Longrightarrow> atom ts c = (Inr (SymbolExpr (ts ! c)), Suc c)"
  by (simp add: atom_def match_hit previous_def peek_def)

lemma atom_literal_token:
  "c < length ts \<Longrightarrow> getTokenType (ts ! c) \<in> {Number, String, Boolean} \<Longrightarrow>
   atom ts c = (Inr (LiteralExpr (Decoded (getLiteral (ts ! c)))), Suc c)"
  by (auto simp: atom_def match_def check_def atom_literal_def previous_def peek_def)

lemma atom_other:
  "c < length ts \<Longrightarrow> getTokenType (ts ! c) \<in> {LeftBracket, RightBracket, Eof} \<Longrightarrow>
   atom ts c = (Inl (SyntaxError (Unexpected (getTokenType (ts ! c)))), c)"
  by (auto simp: atom_def match_def check_def peek_def)

lemma atom_out: "length ts \<le> c \<Longrightarrow> atom ts c = (Inl TypeError, c)"
  by (simp add: atom_def match_out)

section \<open>Sequencing and the number of calls allowed\<close>

lemma and_then_simps [simp]:
  "and_then None f = None"
  "and_then (Some (Inl e, c)) f = Some (Inl e, c)"
  "and_then (Some (Inr x, c)) f = f x c"
  by (simp_all add: and_then_def)

text \<open>Allowing more calls never changes a result that was already computed.\<close>

lemma fuel_le_refl: "fuel_le a a"
  by (simp add: fuel_le_def)

lemma fuel_le_None: "fuel_le None b"
  by (simp add: fuel_le_def)

lemma fuel_le_and_then:
  assumes "fuel_le m m'" and "\<And>x c. fuel_le (f x c) (f' x c)"
  shows "fuel_le (and_then m f) (and_then m' f')"
proof (cases m)
  case None
  then show ?thesis by (simp add: fuel_le_def)
next
  case (Some r)
  with assms(1) have m': "m' = Some r" by (simp add: fuel_le_def)
  obtain s c where r: "r = (s, c)" by (cases r)
  show ?thesis
  proof (cases s)
    case (Inl e)
    with Some m' r show ?thesis by (simp add: fuel_le_def)
  next
    case (Inr x)
    with Some m' r assms(2) [of x c] show ?thesis by simp
  qed
qed

lemma fuel_le_if:
  "(b \<Longrightarrow> fuel_le x x') \<Longrightarrow> (\<not> b \<Longrightarrow> fuel_le y y') \<Longrightarrow>
   fuel_le (if b then x else y) (if b then x' else y')"
  by simp

lemma fuel_le_case_option:
  "fuel_le x x' \<Longrightarrow> (\<And>t. fuel_le (f t) (f' t)) \<Longrightarrow>
   fuel_le (case p of None \<Rightarrow> x | Some t \<Rightarrow> f t) (case p of None \<Rightarrow> x' | Some t \<Rightarrow> f' t)"
  by (cases p) simp_all

lemma fuel_le_case_prod:
  "(\<And>a b. fuel_le (f a b) (f' a b)) \<Longrightarrow>
   fuel_le (case p of (a, b) \<Rightarrow> f a b) (case p of (a, b) \<Rightarrow> f' a b)"
  by (cases p) simp

lemmas fuel_le_intros =
  fuel_le_refl fuel_le_None fuel_le_and_then fuel_le_if fuel_le_case_option fuel_le_case_prod

lemma fuel_mono:
  "n \<le> m \<Longrightarrow> fuel_le (expression n ts c) (expression m ts c)"
  "n \<le> m \<Longrightarrow> fuel_le (call n ts c) (call m ts c)"
  "n \<le> m \<Longrightarrow> fuel_le (expression_loop n ts c xs) (expression_loop m ts c xs)"
  "n \<le> m \<Longrightarrow> fuel_le (if_form n ts c) (if_form m ts c)"
  "n \<le> m \<Longrightarrow> fuel_le (define_form n ts c) (define_form m ts c)"
  "n \<le> m \<Longrightarrow> fuel_le (set_form n ts c) (set_form m ts c)"
  "n \<le> m \<Longrightarrow> fuel_le (let_form n ts c) (let_form m ts c)"
  "n \<le> m \<Longrightarrow> fuel_le (binding_loop n ts c bs) (binding_loop m ts c bs)"
  "n \<le> m \<Longrightarrow> fuel_le (letBinding n ts c) (letBinding m ts c)"
  "n \<le> m \<Longrightarrow> fuel_le (lambda_form n ts c) (lambda_form m ts c)"
proof (induction n arbitrary: m c xs bs)
  case 0
  {
    case 1 show ?case by (simp add: fuel_le_None)
  next
    case 2 show ?case by (simp add: fuel_le_None)
  next
    case 3 show ?case by (simp add: fuel_le_None)
  next
    case 4 show ?case by (simp add: fuel_le_None)
  next
    case 5 show ?case by (simp add: fuel_le_None)
  next
    case 6 show ?case by (simp add: fuel_le_None)
  next
    case 7 show ?case by (simp add: fuel_le_None)
  next
    case 8 show ?case by (simp add: fuel_le_None)
  next
    case 9 show ?case by (simp add: fuel_le_None)
  next
    case 10 show ?case by (simp add: fuel_le_None)
  }
next
  case (Suc n)
  note IH = Suc.IH
  {
    case 1
    then obtain k where m: "m = Suc k" and k: "n \<le> k" by (cases m) auto
    show ?case unfolding m expression.simps
      by (intro fuel_le_intros IH k)
  next
    case 2
    then obtain k where m: "m = Suc k" and k: "n \<le> k" by (cases m) auto
    show ?case unfolding m call.simps
      by (intro fuel_le_intros IH k)
  next
    case 3
    then obtain k where m: "m = Suc k" and k: "n \<le> k" by (cases m) auto
    show ?case unfolding m expression_loop.simps
      by (intro fuel_le_intros IH k)
  next
    case 4
    then obtain k where m: "m = Suc k" and k: "n \<le> k" by (cases m) auto
    show ?case unfolding m if_form.simps
      by (intro fuel_le_intros IH k)
  next
    case 5
    then obtain k where m: "m = Suc k" and k: "n \<le> k" by (cases m) auto
    show ?case unfolding m define_form.simps
      by (intro fuel_le_intros IH k)
  next
    case 6
    then obtain k where m: "m = Suc k" and k: "n \<le> k" by (cases m) auto
    show ?case unfolding m set_form.simps
      by (intro fuel_le_intros IH k)
  next
    case 7
    then obtain k where m: "m = Suc k" and k: "n \<le> k" by (cases m) auto
    show ?case unfolding m let_form.simps
      by (intro fuel_le_intros IH k)
  next
    case 8
    then obtain k where m: "m = Suc k" and k: "n \<le> k" by (cases m) auto
    show ?case unfolding m binding_loop.simps
      by (intro fuel_le_intros IH k)
  next
    case 9
    then obtain k where m: "m = Suc k" and k: "n \<le> k" by (cases m) auto
    show ?case unfolding m letBinding.simps
      by (intro fuel_le_intros IH k)
  next
    case 10
    then obtain k where m: "m = Suc k" and k: "n \<le> k" by (cases m) auto
    show ?case unfolding m lambda_form.simps
      by (intro fuel_le_intros IH k)
  }
qed

lemma parse_loop_mono: "n \<le> m \<Longrightarrow> fuel_le (parse_loop n ts c es) (parse_loop m ts c es)"
proof (induction n arbitrary: m c es)
  case 0
  show ?case by (simp add: fuel_le_None)
next
  case (Suc n)
  then obtain k where m: "m = Suc k" and k: "n \<le> k" by (cases m) auto
  have "fuel_le (and_then (expression n ts c') (\<lambda>e c1. parse_loop n ts c1 (es @ [e])))
                (and_then (expression k ts c') (\<lambda>e c1. parse_loop k ts c1 (es @ [e])))" for c'
    by (intro fuel_le_and_then fuel_mono Suc.IH k)
  then show ?case
    unfolding m by (simp add: fuel_le_refl split: prod.splits sum.splits bool.splits)
qed

lemma parse_mono: "parse n ts = Some r \<Longrightarrow> n \<le> m \<Longrightarrow> parse m ts = Some r"
  using parse_loop_mono [of n m ts 0 "[]"] by (simp add: parse_def fuel_le_def)

lemma expression_mono: "expression n ts c = Some r \<Longrightarrow> n \<le> m \<Longrightarrow> expression m ts c = Some r"
  using fuel_mono(1) [of n m ts c] by (simp add: fuel_le_def)

section \<open>Rules for \<open>yields\<close>\<close>

lemma yields_throw: "E e c \<Longrightarrow> yields (Some (Inl e, c)) E Q"
  by (simp add: yields_def)

lemma yields_return: "Q x c \<Longrightarrow> yields (Some (Inr x, c)) E Q"
  by (simp add: yields_def)

lemma yields_and_then: "yields m E (\<lambda>x c. yields (f x c) E Q) \<Longrightarrow> yields (and_then m f) E Q"
  by (auto simp: yields_def and_then_def split: option.splits sum.splits prod.splits)

lemma yields_weaken:
  "yields m E' Q' \<Longrightarrow> (\<And>e c. E' e c \<Longrightarrow> E e c) \<Longrightarrow> (\<And>x c. Q' x c \<Longrightarrow> Q x c) \<Longrightarrow> yields m E Q"
  by (auto simp: yields_def split: option.splits sum.splits prod.splits)

lemma yieldsD: "yields m E Q \<Longrightarrow> \<exists>s c. m = Some (s, c) \<and> (case s of Inl e \<Rightarrow> E e c | Inr x \<Rightarrow> Q x c)"
  by (auto simp: yields_def split: option.splits sum.splits prod.splits)

lemma yields_match:
  assumes "length ts \<le> c \<Longrightarrow> E TypeError c"
    and "c < length ts \<Longrightarrow> getTokenType (ts ! c) = ty \<Longrightarrow> Q True (Suc c)"
    and "c < length ts \<Longrightarrow> getTokenType (ts ! c) \<noteq> ty \<Longrightarrow> Q False c"
  shows "yields (Some (match ts c ty)) E Q"
  proof (cases "c < length ts")
  case False
  with assms(1) show ?thesis by (simp add: match_out yields_def)
next
  case True
  with assms(2,3) show ?thesis
    by (cases "getTokenType (ts ! c) = ty") (simp_all add: match_hit match_miss yields_def)
qed

lemma yields_consume:
  assumes "length ts \<le> c \<Longrightarrow> E TypeError c"
    and "c < length ts \<Longrightarrow> getTokenType (ts ! c) = ty \<Longrightarrow> Q (ts ! c) (Suc c)"
    and "c < length ts \<Longrightarrow> getTokenType (ts ! c) \<noteq> ty \<Longrightarrow> c = 0 \<Longrightarrow> E TypeError c"
    and "c < length ts \<Longrightarrow> getTokenType (ts ! c) \<noteq> ty \<Longrightarrow> 0 < c \<Longrightarrow>
         E (SyntaxError (UnexpectedExpected (getTokenType (ts ! (c - 1))) ty)) c"
  shows "yields (Some (consume ts c ty)) E Q"
  proof (cases "c < length ts")
  case False
  with assms(1) show ?thesis by (simp add: consume_out yields_def)
next
  case True
  show ?thesis
  proof (cases "getTokenType (ts ! c) = ty")
    case True
    with \<open>c < length ts\<close> assms(2) show ?thesis by (simp add: consume_hit yields_def)
  next
    case False
    with \<open>c < length ts\<close> assms(3,4) show ?thesis
      by (cases "c = 0") (simp_all add: consume_miss consume_miss_first yields_def)
  qed
qed

lemma yields_atom:
  assumes "length ts \<le> c \<Longrightarrow> E TypeError c"
    and "c < length ts \<Longrightarrow> getTokenType (ts ! c) = Symbol \<Longrightarrow> Q (SymbolExpr (ts ! c)) (Suc c)"
    and "c < length ts \<Longrightarrow> getTokenType (ts ! c) \<in> {Number, String, Boolean} \<Longrightarrow>
         Q (LiteralExpr (Decoded (getLiteral (ts ! c)))) (Suc c)"
    and "c < length ts \<Longrightarrow> getTokenType (ts ! c) \<in> {LeftBracket, RightBracket, Eof} \<Longrightarrow>
         E (SyntaxError (Unexpected (getTokenType (ts ! c)))) c"
  shows "yields (Some (atom ts c)) E Q"
proof (cases "c < length ts")
  case False
  with assms(1) show ?thesis by (simp add: atom_out yields_def)
next
  case True
  show ?thesis
  proof (cases "getTokenType (ts ! c)")
    case Symbol
    with True assms(2) show ?thesis by (simp add: atom_symbol yields_def)
  qed (use True assms(3,4) in \<open>simp_all add: atom_literal_token atom_other yields_def\<close>)
qed

lemma yields_peek:
  assumes "length ts \<le> c \<Longrightarrow> yields a E Q"
    and "c < length ts \<Longrightarrow> yields (f (ts ! c)) E Q"
  shows "yields (case peek ts c of None \<Rightarrow> a | Some t \<Rightarrow> f t) E Q"
  using assms by (cases "c < length ts") (simp_all add: peek_def)

section \<open>The last token of a well-formed input\<close>

lemma not_last_token:
  "well_formed ts \<Longrightarrow> c < length ts \<Longrightarrow>
   getTokenType (ts ! c) \<noteq> Eof \<or> is_keyword (getLexeme (ts ! c)) \<Longrightarrow> Suc c < length ts"
proof (rule ccontr)
  assume wf: "well_formed ts" and c: "c < length ts"
    and t: "getTokenType (ts ! c) \<noteq> Eof \<or> is_keyword (getLexeme (ts ! c))"
    and "\<not> Suc c < length ts"
  then have "c = length ts - 1" by simp
  with wf have "ts ! c = last ts" by (simp add: well_formed_def last_conv_nth)
  with wf t show False by (simp add: well_formed_def)
qed

lemma wf_last_index:
  assumes "well_formed ts" and "c < length ts"
  shows "Suc c < length ts \<longleftrightarrow> getTokenType (ts ! c) \<noteq> Eof"
proof
  assume "Suc c < length ts"
  then have "ts ! c \<in> set (butlast ts)"
    by (metis One_nat_def Suc_lessD Suc_less_eq Suc_pred length_butlast length_pos_if_in_set nth_butlast nth_mem assms(2))
  with assms(1) show "getTokenType (ts ! c) \<noteq> Eof" by (simp add: well_formed_def)
next
  assume "getTokenType (ts ! c) \<noteq> Eof"
  with assms show "Suc c < length ts" using not_last_token by blast
qed

text \<open>The cursor operations, seen only through where they leave the cursor.\<close>

lemma yields_match_cursor:
  assumes "ty \<noteq> Eof"
    and "\<And>e. thrown_here ts e c \<Longrightarrow> length ts \<le> c \<Longrightarrow> E e c"
    and "c < length ts \<Longrightarrow> (well_formed ts \<longrightarrow> Suc c < length ts) \<Longrightarrow> Q True (Suc c)"
    and "c < length ts \<Longrightarrow> Q False c"
  shows "yields (Some (match ts c ty)) E Q"
  using assms by (intro yields_match) (auto simp: wf_last_index thrown_here_def)

lemma yields_consume_cursor:
  assumes "ty \<noteq> Eof"
    and "\<And>e. thrown_here ts e c \<Longrightarrow>
           well_formed ts \<and> 0 < c \<and> c < length ts \<longrightarrow> e \<noteq> TypeError \<Longrightarrow> E e c"
    and "\<And>t. c < length ts \<Longrightarrow> (well_formed ts \<longrightarrow> Suc c < length ts) \<Longrightarrow> Q t (Suc c)"
  shows "yields (Some (consume ts c ty)) E Q"
  using assms by (intro yields_consume) (auto simp: wf_last_index thrown_here_def)

lemma yields_atom_cursor:
  assumes "\<And>e. thrown_here ts e c \<Longrightarrow>
           well_formed ts \<and> c < length ts \<longrightarrow> e \<noteq> TypeError \<Longrightarrow> E e c"
    and "\<And>x. c < length ts \<Longrightarrow> (well_formed ts \<longrightarrow> Suc c < length ts) \<Longrightarrow> Q x (Suc c)"
  shows "yields (Some (atom ts c)) E Q"
  using assms by (intro yields_atom) (auto simp: wf_last_index thrown_here_def)

lemma yields_throw_TypeError:
  "(thrown_here ts TypeError c \<Longrightarrow> E TypeError c) \<Longrightarrow> yields (Some (Inl TypeError, c)) E Q"
  by (simp add: yields_def thrown_here_def)

lemma yields_peek_cursor:
  assumes "length ts \<le> c \<Longrightarrow> yields a E Q"
    and "\<And>t. c < length ts \<Longrightarrow>
           (well_formed ts \<longrightarrow> is_keyword (getLexeme t) \<longrightarrow> Suc c < length ts) \<Longrightarrow> yields (f t) E Q"
  shows "yields (case peek ts c of None \<Rightarrow> a | Some t \<Rightarrow> f t) E Q"
proof (rule yields_peek)
  assume c: "c < length ts"
  have "well_formed ts \<longrightarrow> is_keyword (getLexeme (ts ! c)) \<longrightarrow> Suc c < length ts"
    using not_last_token [of ts c] c by simp
  with c show "yields (f (ts ! c)) E Q" by (rule assms(2))
qed (rule assms(1))

lemmas yields_intros =
  yields_and_then yields_match_cursor yields_consume_cursor yields_atom_cursor yields_peek_cursor
  yields_return yields_throw_TypeError

section \<open>Every parser halts, moves the cursor forward and stays inside the input\<close>

lemma lambda_params_post:
  "case lambda_params ts c ps of
     (Inl e, c') \<Rightarrow> post_throw ts (0 < c \<and> c < length ts) c e c'
   | (Inr x, c') \<Rightarrow> post_return ts (0 < c \<and> c < length ts) c x c'"
proof (induction ts c ps rule: lambda_params.induct)
  case (1 ts c ps)
  show ?case
  proof (cases "c < length ts")
    case False
    then show ?thesis
      by (subst lambda_params.simps) (simp add: match_out post_throw_def thrown_here_def)
  next
    case True
    show ?thesis
    proof (cases "getTokenType (ts ! c) = RightBracket")
      case rb: True
      with True show ?thesis
        by (subst lambda_params.simps) (auto simp: match_hit post_return_def dest: not_last_token)
    next
      case False
      show ?thesis
      proof (cases "getTokenType (ts ! c) = Symbol")
        case sym: True
        with True False have m: "match ts c RightBracket = (Inr False, c)"
          and co: "consume ts c Symbol = (Inr (ts ! c), Suc c)"
          by (simp_all add: match_miss consume_hit)
        from 1 [OF m [symmetric] refl refl co [symmetric] refl]
        have IH: "case lambda_params ts (Suc c) (ps @ [ts ! c]) of
           (Inl e, c') \<Rightarrow> post_throw ts (0 < Suc c \<and> Suc c < length ts) (Suc c) e c'
         | (Inr x, c') \<Rightarrow> post_return ts (0 < Suc c \<and> Suc c < length ts) (Suc c) x c'" .
        have n: "well_formed ts \<Longrightarrow> Suc c < length ts"
          using not_last_token [of ts c] True sym by simp
        show ?thesis
          using IH n by (subst lambda_params.simps)
            (auto simp: m co post_throw_def thrown_here_def post_return_def split: prod.splits sum.splits)
      next
        case nsym: False
        show ?thesis
        proof (cases "c = 0")
          case True
          with \<open>c < length ts\<close> False nsym show ?thesis
            by (subst lambda_params.simps)
              (simp add: match_miss consume_miss_first post_throw_def thrown_here_def)
        next
          case c0: False
          with True False nsym show ?thesis
            by (subst lambda_params.simps) (simp add: match_miss consume_miss post_throw_def thrown_here_def)
        qed
      qed
    qed
  qed
qed

lemma yields_lambda_params:
  assumes "\<And>e c'. post_throw ts (0 < c \<and> c < length ts) c e c' \<Longrightarrow> E e c'"
    and "\<And>x c'. post_return ts (0 < c \<and> c < length ts) c x c' \<Longrightarrow> Q x c'"
  shows "yields (Some (lambda_params ts c ps)) E Q"
  using lambda_params_post [of ts c ps] assms
  by (auto simp: yields_def split: prod.splits sum.splits)

text \<open>
  When at most \<open>k\<close> tokens lie at or after the cursor, \<open>2 * k + 2\<close> calls are enough for each of
  the ten parsers: induction on \<open>k\<close>. In the step, \<open>expression\<close> and \<open>letBinding\<close> come first (one
  call less is enough for them), because \<open>call\<close> and the loops call them at the same cursor.
\<close>

lemma all_yield:
  "length ts \<le> c + k \<Longrightarrow> 2 * k + 2 \<le> n \<Longrightarrow>
     yields (expression n ts c) (post_throw ts (c < length ts) c) (post_return ts (c < length ts) c)"
  "length ts \<le> c + k \<Longrightarrow> 2 * k + 2 \<le> n \<Longrightarrow>
     yields (call n ts c) (post_throw ts (c < length ts) c) (post_return ts (c < length ts) c)"
  "length ts \<le> c + k \<Longrightarrow> 2 * k + 2 \<le> n \<Longrightarrow>
     yields (expression_loop n ts c xs) (post_throw ts (c < length ts) c) (post_return ts (c < length ts) c)"
  "length ts \<le> c + k \<Longrightarrow> 2 * k + 2 \<le> n \<Longrightarrow>
     yields (if_form n ts c) (post_throw ts (Suc c < length ts) c) (post_return ts (Suc c < length ts) c)"
  "length ts \<le> c + k \<Longrightarrow> 2 * k + 2 \<le> n \<Longrightarrow>
     yields (define_form n ts c) (post_throw ts (Suc c < length ts) c) (post_return ts (Suc c < length ts) c)"
  "length ts \<le> c + k \<Longrightarrow> 2 * k + 2 \<le> n \<Longrightarrow>
     yields (set_form n ts c) (post_throw ts (Suc c < length ts) c) (post_return ts (Suc c < length ts) c)"
  "length ts \<le> c + k \<Longrightarrow> 2 * k + 2 \<le> n \<Longrightarrow>
     yields (let_form n ts c) (post_throw ts (Suc c < length ts) c) (post_return ts (Suc c < length ts) c)"
  "length ts \<le> c + k \<Longrightarrow> 2 * k + 2 \<le> n \<Longrightarrow>
     yields (binding_loop n ts c bs) (post_throw ts (0 < c \<and> c < length ts) c)
       (post_return ts (0 < c \<and> c < length ts) c)"
  "length ts \<le> c + k \<Longrightarrow> 2 * k + 2 \<le> n \<Longrightarrow>
     yields (letBinding n ts c) (post_throw ts (0 < c \<and> c < length ts) c)
       (post_return ts (0 < c \<and> c < length ts) c)"
  "length ts \<le> c + k \<Longrightarrow> 2 * k + 2 \<le> n \<Longrightarrow>
     yields (lambda_form n ts c) (post_throw ts (Suc c < length ts) c) (post_return ts (Suc c < length ts) c)"
proof (induction k arbitrary: c n xs bs)
  case 0
  have two: "2 \<le> n \<Longrightarrow> \<exists>m. n = Suc (Suc m)" for n :: nat
    by (rule exI [of _ "n - 2"]) simp
  {
    case 1
    with two [of n] obtain m where "n = Suc (Suc m)" by auto
    with 1 show ?case
      by (auto intro!: yields_intros simp: post_throw_def post_return_def advance_def)
  next
    case 2
    with two [of n] obtain m where "n = Suc (Suc m)" by auto
    with 2 show ?case
      by (auto intro!: yields_intros simp: post_throw_def post_return_def advance_def)
  next
    case 3
    with two [of n] obtain m where "n = Suc (Suc m)" by auto
    with 3 show ?case
      by (auto intro!: yields_intros simp: post_throw_def post_return_def advance_def)
  next
    case 4
    with two [of n] obtain m where "n = Suc (Suc m)" by auto
    with 4 show ?case
      by (auto intro!: yields_intros simp: post_throw_def post_return_def advance_def)
  next
    case 5
    with two [of n] obtain m where "n = Suc (Suc m)" by auto
    with 5 show ?case
      by (auto intro!: yields_intros simp: post_throw_def post_return_def advance_def)
  next
    case 6
    with two [of n] obtain m where "n = Suc (Suc m)" by auto
    with 6 show ?case
      by (auto intro!: yields_intros simp: post_throw_def post_return_def advance_def)
  next
    case 7
    with two [of n] obtain m where "n = Suc (Suc m)" by auto
    with 7 show ?case
      by (auto intro!: yields_intros simp: post_throw_def post_return_def advance_def)
  next
    case 8
    with two [of n] obtain m where "n = Suc (Suc m)" by auto
    with 8 show ?case
      by (auto intro!: yields_intros simp: post_throw_def post_return_def advance_def)
  next
    case 9
    with two [of n] obtain m where "n = Suc (Suc m)" by auto
    with 9 show ?case
      by (auto intro!: yields_intros simp: post_throw_def post_return_def advance_def)
  next
    case 10
    with two [of n] obtain m where "n = Suc (Suc m)" by auto
    with 10 show ?case
      by (auto intro!: yields_intros yields_lambda_params
          simp: post_throw_def post_return_def advance_def)
  }
next
  case (Suc k)
  note IH = Suc.IH
  have pred: "2 * k + 3 \<le> n \<Longrightarrow> \<exists>m. n = Suc m \<and> 2 * k + 2 \<le> m" for n
    by (cases n) auto
  have expr: "yields (expression n ts c) (post_throw ts (c < length ts) c)
      (post_return ts (c < length ts) c)"
    if "length ts \<le> c + Suc k" and "2 * k + 3 \<le> n" for c n
  proof -
    from pred that obtain m where m: "n = Suc m" "2 * k + 2 \<le> m" by blast
    show ?thesis
      unfolding m expression.simps
      using that(1) m(2)
      by (auto intro!: yields_intros yields_weaken [OF IH(2)] yields_weaken [OF IH(4)]
            yields_weaken [OF IH(5)] yields_weaken [OF IH(6)] yields_weaken [OF IH(7)]
            yields_weaken [OF IH(10)]
          simp: post_throw_def post_return_def is_keyword_def)
  qed
  have binding: "yields (letBinding n ts c) (post_throw ts (0 < c \<and> c < length ts) c)
      (post_return ts (0 < c \<and> c < length ts) c)"
    if "length ts \<le> c + Suc k" and "2 * k + 3 \<le> n" for c n
  proof -
    from pred that obtain m where m: "n = Suc m" "2 * k + 2 \<le> m" by blast
    show ?thesis
      unfolding m letBinding.simps
      using that(1) m(2)
      by (auto intro!: yields_intros yields_weaken [OF IH(1)]
          simp: post_throw_def post_return_def)
  qed
  {
    case 1
    then show ?case by (intro expr) simp_all
  next
    case 2
    with pred [of "Suc n"] obtain m where m: "n = Suc m" "2 * k + 3 \<le> m" by (cases n) auto
    show ?case
      unfolding m call.simps
      using 2(1) m(2)
      by (auto intro!: yields_intros yields_weaken [OF expr] yields_weaken [OF IH(3)]
          simp: post_throw_def post_return_def)
  next
    case 3
    with pred [of "Suc n"] obtain m where m: "n = Suc m" "2 * k + 3 \<le> m" by (cases n) auto
    show ?case
      unfolding m expression_loop.simps
      using 3(1) m(2)
      by (auto intro!: yields_intros yields_weaken [OF expr] yields_weaken [OF IH(3)]
          simp: post_throw_def post_return_def)
  next
    case 4
    with pred [of "Suc n"] obtain m where m: "n = Suc m" "2 * k + 3 \<le> m" by (cases n) auto
    show ?case
      unfolding m if_form.simps advance_def prod.case
      using 4(1) m(2)
      by (auto intro!: yields_intros yields_weaken [OF IH(1)]
          simp: post_throw_def post_return_def)
  next
    case 5
    with pred [of "Suc n"] obtain m where m: "n = Suc m" "2 * k + 3 \<le> m" by (cases n) auto
    show ?case
      unfolding m define_form.simps advance_def prod.case
      using 5(1) m(2)
      by (auto intro!: yields_intros yields_weaken [OF IH(1)]
          simp: post_throw_def post_return_def)
  next
    case 6
    with pred [of "Suc n"] obtain m where m: "n = Suc m" "2 * k + 3 \<le> m" by (cases n) auto
    show ?case
      unfolding m set_form.simps advance_def prod.case
      using 6(1) m(2)
      by (auto intro!: yields_intros yields_weaken [OF IH(1)]
          simp: post_throw_def post_return_def)
  next
    case 7
    with pred [of "Suc n"] obtain m where m: "n = Suc m" "2 * k + 3 \<le> m" by (cases n) auto
    show ?case
      unfolding m let_form.simps advance_def prod.case
      using 7(1) m(2)
      by (auto intro!: yields_intros yields_weaken [OF IH(8)] yields_weaken [OF IH(3)]
          simp: post_throw_def post_return_def)
  next
    case 8
    with pred [of "Suc n"] obtain m where m: "n = Suc m" "2 * k + 3 \<le> m" by (cases n) auto
    show ?case
      unfolding m binding_loop.simps
      using 8(1) m(2)
      by (auto intro!: yields_intros yields_weaken [OF binding] yields_weaken [OF IH(8)]
          simp: post_throw_def post_return_def)
  next
    case 9
    then show ?case by (intro binding) simp_all
  next
    case 10
    with pred [of "Suc n"] obtain m where m: "n = Suc m" "2 * k + 3 \<le> m" by (cases n) auto
    show ?case
      unfolding m lambda_form.simps advance_def prod.case
      using 10(1) m(2)
      by (auto intro!: yields_intros yields_lambda_params yields_weaken [OF IH(3)]
          simp: post_throw_def post_return_def)
  }
qed

lemma parse_loop_Suc:
  "parse_loop (Suc n) ts c es =
     (if length ts \<le> c then Some (Inl TypeError, c)
      else if getTokenType (ts ! c) = Eof then Some (Inr es, c)
      else and_then (expression n ts c) (\<lambda>e c1. parse_loop n ts c1 (es @ [e])))"
  by (simp add: isAtEnd_def peek_def)

lemma parse_loop_yields:
  "length ts \<le> c + k \<Longrightarrow> 2 * k + 3 \<le> n \<Longrightarrow>
   yields (parse_loop n ts c es)
     (\<lambda>e c'. thrown_here ts e c' \<and>
        (well_formed ts \<and> c < length ts \<longrightarrow> c' < length ts \<and> e \<noteq> TypeError))
     (\<lambda>xs c'. well_formed ts \<and> c < length ts \<longrightarrow> Suc c' = length ts)"
proof (induction k arbitrary: c n es)
  case 0
  then obtain m where "n = Suc m" by (cases n) auto
  with 0 show ?case by (simp add: parse_loop_Suc yields_def thrown_here_def del: parse_loop.simps)
next
  case (Suc k)
  then obtain m where m: "n = Suc m" "2 * k + 4 \<le> m" by (cases n) auto
  show ?case
  proof (cases "c < length ts")
    case False
    then show ?thesis by (simp add: m parse_loop_Suc yields_def thrown_here_def del: parse_loop.simps)
  next
    case True
    show ?thesis
    proof (cases "getTokenType (ts ! c) = Eof")
      case eof: True
      with True show ?thesis
        using wf_last_index [of ts c] by (auto simp: m parse_loop_Suc yields_def simp del: parse_loop.simps)
    next
      case False
      have "yields (and_then (expression m ts c) (\<lambda>e c1. parse_loop m ts c1 (es @ [e])))
        (\<lambda>e c'. thrown_here ts e c' \<and>
           (well_formed ts \<and> c < length ts \<longrightarrow> c' < length ts \<and> e \<noteq> TypeError))
        (\<lambda>xs c'. well_formed ts \<and> c < length ts \<longrightarrow> Suc c' = length ts)"
        using Suc.prems(1) m(2)
        by (auto intro!: yields_and_then yields_weaken [OF all_yield(1) [of ts c "Suc k" m]]
              yields_weaken [OF Suc.IH] simp: post_throw_def post_return_def)
      with True False show ?thesis by (simp add: m parse_loop_Suc del: parse_loop.simps)
    qed
  qed
qed

lemma parse_yields:
  "2 * length ts + 3 \<le> n \<Longrightarrow>
   yields (parse n ts)
     (\<lambda>e c'. thrown_here ts e c' \<and> (well_formed ts \<longrightarrow> c' < length ts \<and> e \<noteq> TypeError))
     (\<lambda>xs c'. well_formed ts \<longrightarrow> Suc c' = length ts)"
  unfolding parse_def
  by (rule yields_weaken [OF parse_loop_yields [of ts 0 "length ts" n "[]"]])
     (auto simp: well_formed_def)

section \<open>What a parser that returned has done\<close>

lemma and_then_InrE:
  assumes "and_then m f = Some (Inr y, c')"
  obtains x c where "m = Some (Inr x, c)" and "f x c = Some (Inr y, c')"
  using assms by (auto simp: and_then_def split: option.splits sum.splits prod.splits)

lemma match_Inr:
  "match ts c ty = (Inr b, c') \<longleftrightarrow>
     c < length ts \<and> b = (getTokenType (ts ! c) = ty) \<and> c' = (if b then Suc c else c)"
  by (cases "c < length ts"; cases "getTokenType (ts ! c) = ty")
    (auto simp: match_hit match_miss match_out)

lemma consume_Inr:
  "consume ts c ty = (Inr t, c') \<longleftrightarrow>
     c < length ts \<and> getTokenType (ts ! c) = ty \<and> t = ts ! c \<and> c' = Suc c"
  by (cases "c < length ts"; cases "getTokenType (ts ! c) = ty"; cases "c = 0")
    (auto simp: consume_hit consume_miss consume_miss_first consume_out)

lemma expression_returns:
  assumes "expression (Suc n) ts c = Some (Inr e, c')"
  shows "e = LiteralExpr NULL_VALUE \<or> atom ts c = (Inr e, c') \<or>
    (\<exists>c1. if_form n ts c1 = Some (Inr e, c') \<or> define_form n ts c1 = Some (Inr e, c') \<or>
      set_form n ts c1 = Some (Inr e, c') \<or> let_form n ts c1 = Some (Inr e, c') \<or>
      lambda_form n ts c1 = Some (Inr e, c') \<or> call n ts c1 = Some (Inr e, c'))"
  using assms
  by (auto elim!: and_then_InrE split: if_splits option.splits simp: match_Inr)

lemma call_returns:
  assumes "call (Suc n) ts c = Some (Inr e, c')"
  shows "\<exists>callee args c1. expression n ts c = Some (Inr callee, c1) \<and>
    expression_loop n ts c1 [] = Some (Inr args, c') \<and> e = CallExpr callee args"
  using assms by (auto elim!: and_then_InrE simp: match_Inr consume_Inr)

lemma expression_loop_returns:
  assumes "expression_loop (Suc n) ts c xs = Some (Inr ys, c')"
  shows "ys = xs \<or> (\<exists>x c1. expression n ts c = Some (Inr x, c1) \<and>
    expression_loop n ts c1 (xs @ [x]) = Some (Inr ys, c'))"
  using assms by (auto elim!: and_then_InrE split: if_splits simp: match_Inr)

lemma if_form_returns:
  assumes "if_form (Suc n) ts c = Some (Inr e, c')"
  shows "\<exists>test consequent alternative c1 c2. expression n ts (Suc c) = Some (Inr test, c1) \<and>
    expression n ts c1 = Some (Inr consequent, c2) \<and>
    (alternative = None \<or> (\<exists>a c3 c4. expression n ts c3 = Some (Inr a, c4) \<and> alternative = Some a)) \<and>
    e = IfExpr test consequent alternative"
  using assms by (auto elim!: and_then_InrE split: if_splits simp: advance_def match_Inr consume_Inr)

lemma define_form_returns:
  assumes "define_form (Suc n) ts c = Some (Inr e, c')"
  shows "\<exists>name v c1 c2. expression n ts c1 = Some (Inr v, c2) \<and> e = DefineExpr name v"
  using assms by (auto elim!: and_then_InrE simp: advance_def match_Inr consume_Inr)

lemma set_form_returns:
  assumes "set_form (Suc n) ts c = Some (Inr e, c')"
  shows "\<exists>name v c1 c2. expression n ts c1 = Some (Inr v, c2) \<and> e = SetExpr name v"
  using assms by (auto elim!: and_then_InrE simp: advance_def match_Inr consume_Inr)

lemma let_form_returns:
  assumes "let_form (Suc n) ts c = Some (Inr e, c')"
  shows "\<exists>bindings body c1 c2. binding_loop n ts c1 [] = Some (Inr bindings, c2) \<and>
    expression_loop n ts c2 [] = Some (Inr body, c') \<and> e = LetExpr bindings body"
  using assms by (auto elim!: and_then_InrE simp: advance_def match_Inr consume_Inr)

lemma binding_loop_returns:
  assumes "binding_loop (Suc n) ts c bs = Some (Inr bs', c')"
  shows "bs' = bs \<or> (\<exists>b c1. letBinding n ts c = Some (Inr b, c1) \<and>
    binding_loop n ts c1 (bs @ [b]) = Some (Inr bs', c'))"
  using assms by (auto elim!: and_then_InrE split: if_splits simp: match_Inr)

lemma letBinding_returns:
  assumes "letBinding (Suc n) ts c = Some (Inr b, c')"
  shows "\<exists>name v c1 c2. expression n ts c1 = Some (Inr v, c2) \<and> b = LetBindingNode name v"
  using assms by (auto elim!: and_then_InrE simp: match_Inr consume_Inr)

lemma lambda_form_returns:
  assumes "lambda_form (Suc n) ts c = Some (Inr e, c')"
  shows "\<exists>params body c1 c2. lambda_params ts c1 [] = (Inr params, c2) \<and>
    expression_loop n ts c2 [] = Some (Inr body, c') \<and> e = LambdaExpr params body"
  using assms by (auto elim!: and_then_InrE simp: advance_def match_Inr consume_Inr)

section \<open>The parameters of lambda\<close>

lemma atom_symbol_params: "atom ts c = (Inr x, c') \<Longrightarrow> symbol_params x"
  by (auto simp: atom_def atom_literal_def split: prod.splits sum.splits bool.splits option.splits)

lemma lambda_params_symbols:
  "lambda_params ts c ps = (Inr qs, c') \<Longrightarrow> \<forall>p \<in> set ps. getTokenType p = Symbol \<Longrightarrow>
   \<forall>q \<in> set qs. getTokenType q = Symbol"
proof (induction ts c ps rule: lambda_params.induct)
  case (1 ts c ps)
  obtain s c1 where m: "match ts c RightBracket = (s, c1)" by (cases "match ts c RightBracket")
  show ?case
  proof (cases s)
    case (Inl e)
    with m "1.prems"(1) show ?thesis by (simp add: lambda_params.simps [of ts c])
  next
    case (Inr b)
    show ?thesis
    proof (cases b)
      case True
      with m Inr "1.prems" show ?thesis by (simp add: lambda_params.simps [of ts c])
    next
      case False
      obtain s2 c2 where co: "consume ts c1 Symbol = (s2, c2)" by (cases "consume ts c1 Symbol")
      show ?thesis
      proof (cases s2)
        case (Inl e)
        with m Inr False co "1.prems"(1) show ?thesis by (simp add: lambda_params.simps [of ts c])
      next
        case t: (Inr t)
        with m Inr False co "1.prems"(1)
        have rec: "lambda_params ts c2 (ps @ [t]) = (Inr qs, c')"
          by (simp add: lambda_params.simps [of ts c])
        from co t have "getTokenType t = Symbol" by (simp add: consume_Inr)
        with "1.prems"(2) have "\<forall>p \<in> set (ps @ [t]). getTokenType p = Symbol" by simp
        moreover from False have "b = False" by simp
        ultimately show ?thesis
          using "1.IH" [OF m [symmetric] Inr _ co [symmetric] t rec] by blast
      qed
    qed
  qed
qed

lemma symbol_params_all:
  "expression n ts c = Some (Inr e, c') \<Longrightarrow> symbol_params e"
  "call n ts c = Some (Inr e, c') \<Longrightarrow> symbol_params e"
  "expression_loop n ts c xs = Some (Inr ys, c') \<Longrightarrow> \<forall>x \<in> set xs. symbol_params x \<Longrightarrow>
     \<forall>y \<in> set ys. symbol_params y"
  "if_form n ts c = Some (Inr e, c') \<Longrightarrow> symbol_params e"
  "define_form n ts c = Some (Inr e, c') \<Longrightarrow> symbol_params e"
  "set_form n ts c = Some (Inr e, c') \<Longrightarrow> symbol_params e"
  "let_form n ts c = Some (Inr e, c') \<Longrightarrow> symbol_params e"
  "binding_loop n ts c bs = Some (Inr bs', c') \<Longrightarrow> \<forall>b \<in> set bs. symbol_params_binding b \<Longrightarrow>
     \<forall>b \<in> set bs'. symbol_params_binding b"
  "letBinding n ts c = Some (Inr b, c') \<Longrightarrow> symbol_params_binding b"
  "lambda_form n ts c = Some (Inr e, c') \<Longrightarrow> symbol_params e"
proof (induction n arbitrary: c c' e xs ys bs bs' b)
  case 0
  {
    case 1 then show ?case by simp
  next
    case 2 then show ?case by simp
  next
    case 3 then show ?case by simp
  next
    case 4 then show ?case by simp
  next
    case 5 then show ?case by simp
  next
    case 6 then show ?case by simp
  next
    case 7 then show ?case by simp
  next
    case 8 then show ?case by simp
  next
    case 9 then show ?case by simp
  next
    case 10 then show ?case by simp
  }
next
  case (Suc n)
  note IH = Suc.IH
  {
    case 1
    from expression_returns [OF 1] show ?case
      by (elim disjE exE)
        (simp, erule atom_symbol_params, erule IH(4), erule IH(5), erule IH(6), erule IH(7),
          erule IH(10), erule IH(2))
  next
    case 2
    from call_returns [OF 2] obtain callee args c1
      where callee: "expression n ts c = Some (Inr callee, c1)"
        and args: "expression_loop n ts c1 [] = Some (Inr args, c')"
        and e: "e = CallExpr callee args"
      by blast
    from IH(1) [OF callee] IH(3) [OF args] e show ?case by simp
  next
    case 3
    from expression_loop_returns [OF 3(1)] show ?case
    proof (elim disjE exE conjE)
      assume "ys = xs"
      with 3(2) show ?thesis by simp
    next
      fix x c1
      assume x: "expression n ts c = Some (Inr x, c1)"
        and loop: "expression_loop n ts c1 (xs @ [x]) = Some (Inr ys, c')"
      from IH(1) [OF x] 3(2) have "\<forall>y \<in> set (xs @ [x]). symbol_params y" by simp
      with IH(3) [OF loop] show ?thesis .
    qed
  next
    case 4
    from if_form_returns [OF 4] obtain test consequent alternative c1 c2
      where "expression n ts (Suc c) = Some (Inr test, c1)"
        and "expression n ts c1 = Some (Inr consequent, c2)"
        and "alternative = None \<or>
          (\<exists>a c3 c4. expression n ts c3 = Some (Inr a, c4) \<and> alternative = Some a)"
        and "e = IfExpr test consequent alternative"
      by blast
    then show ?case using IH(1) by auto
  next
    case 5
    from define_form_returns [OF 5] IH(1) show ?case by auto
  next
    case 6
    from set_form_returns [OF 6] IH(1) show ?case by auto
  next
    case 7
    from let_form_returns [OF 7] obtain bindings body c1 c2
      where bindings: "binding_loop n ts c1 [] = Some (Inr bindings, c2)"
        and body: "expression_loop n ts c2 [] = Some (Inr body, c')"
        and e: "e = LetExpr bindings body"
      by blast
    from IH(8) [OF bindings] IH(3) [OF body] e show ?case by simp
  next
    case 8
    from binding_loop_returns [OF 8(1)] show ?case
    proof (elim disjE exE conjE)
      assume "bs' = bs"
      with 8(2) show ?thesis by simp
    next
      fix b c1
      assume b: "letBinding n ts c = Some (Inr b, c1)"
        and loop: "binding_loop n ts c1 (bs @ [b]) = Some (Inr bs', c')"
      from IH(9) [OF b] 8(2) have "\<forall>x \<in> set (bs @ [b]). symbol_params_binding x" by simp
      with IH(8) [OF loop] show ?thesis .
    qed
  next
    case 9
    from letBinding_returns [OF 9] IH(1) show ?case by auto
  next
    case 10
    from lambda_form_returns [OF 10] obtain params body c1 c2
      where params: "lambda_params ts c1 [] = (Inr params, c2)"
        and body: "expression_loop n ts c2 [] = Some (Inr body, c')"
        and e: "e = LambdaExpr params body"
      by blast
    from lambda_params_symbols [OF params] IH(3) [OF body] e show ?case by simp
  }
qed

lemma parse_loop_symbol_params:
  "parse_loop n ts c es = Some (Inr es', c') \<Longrightarrow> \<forall>e \<in> set es. symbol_params e \<Longrightarrow>
   \<forall>e \<in> set es'. symbol_params e"
proof (induction n arbitrary: c es)
  case 0
  then show ?case by simp
next
  case (Suc n)
  from Suc.prems(1) have "es' = es \<or> (\<exists>x c1. expression n ts c = Some (Inr x, c1) \<and>
      parse_loop n ts c1 (es @ [x]) = Some (Inr es', c'))"
    by (auto simp: parse_loop_Suc elim!: and_then_InrE split: if_splits simp del: parse_loop.simps)
  then show ?case
  proof (elim disjE exE conjE)
    assume "es' = es"
    with Suc.prems(2) show ?thesis by simp
  next
    fix x c1
    assume x: "expression n ts c = Some (Inr x, c1)"
      and loop: "parse_loop n ts c1 (es @ [x]) = Some (Inr es', c')"
    from symbol_params_all(1) [OF x] Suc.prems(2)
    have "\<forall>y \<in> set (es @ [x]). symbol_params y" by simp
    with Suc.IH [OF loop] show ?thesis .
  qed
qed

lemma lambda_params_rejects:
  assumes "\<forall>s \<in> set syms. getTokenType s = Symbol"
    and "getTokenType bad \<noteq> Symbol" and "getTokenType bad \<noteq> RightBracket" and "pre \<noteq> []"
  shows "lambda_params (pre @ syms @ bad # post) (length pre) ps =
    (Inl (SyntaxError (UnexpectedExpected (getTokenType (last (pre @ syms))) Symbol)),
     length pre + length syms)"
  using assms
proof (induction syms arbitrary: pre ps)
  case Nil
  let ?ts = "pre @ [] @ bad # post"
  have c: "length pre < length ?ts" and t: "?ts ! length pre = bad" by simp_all
  from Nil.prems have "?ts ! (length pre - 1) = last pre"
    by (simp add: nth_append last_conv_nth)
  with Nil.prems c t show ?case
    by (subst lambda_params.simps) (simp add: match_miss consume_miss)
next
  case (Cons s syms)
  let ?ts = "pre @ (s # syms) @ bad # post"
  have c: "length pre < length ?ts" and t: "?ts ! length pre = s" by simp_all
  have ts: "?ts = (pre @ [s]) @ syms @ bad # post" by simp
  from Cons.prems have s: "getTokenType s = Symbol" by simp
  from Cons.prems
  have "lambda_params ((pre @ [s]) @ syms @ bad # post) (length (pre @ [s])) (ps @ [s]) =
    (Inl (SyntaxError (UnexpectedExpected (getTokenType (last ((pre @ [s]) @ syms))) Symbol)),
     length (pre @ [s]) + length syms)"
    by (intro Cons.IH) simp_all
  then have "lambda_params ?ts (Suc (length pre)) (ps @ [s]) =
    (Inl (SyntaxError (UnexpectedExpected (getTokenType (last (pre @ s # syms))) Symbol)),
     length pre + length (s # syms))"
    by simp
  with c t s show ?case
    by (subst lambda_params.simps) (simp add: match_miss consume_hit)
qed

lemma lambda_form_rejects:
  assumes "getLexeme lam = ''lambda''" and "getTokenType lb1 = LeftBracket"
    and "\<forall>s \<in> set syms. getTokenType s = Symbol"
    and "getTokenType bad \<noteq> Symbol" and "getTokenType bad \<noteq> RightBracket"
  shows "lambda_form (Suc n) (pre @ lam # lb1 # syms @ bad # post) (length pre) =
    Some (Inl (SyntaxError (UnexpectedExpected (getTokenType (last (lb1 # syms))) Symbol)),
      length pre + 2 + length syms)"
proof -
  let ?ts = "pre @ lam # lb1 # syms @ bad # post"
  have ts: "?ts = (pre @ [lam, lb1]) @ syms @ bad # post" by simp
  have "lambda_params ((pre @ [lam, lb1]) @ syms @ bad # post) (length (pre @ [lam, lb1])) [] =
    (Inl (SyntaxError (UnexpectedExpected (getTokenType (last ((pre @ [lam, lb1]) @ syms))) Symbol)),
     length (pre @ [lam, lb1]) + length syms)"
    using assms by (intro lambda_params_rejects) simp_all
  then have p: "lambda_params ?ts (Suc (Suc (length pre))) [] =
    (Inl (SyntaxError (UnexpectedExpected (getTokenType (last (lb1 # syms))) Symbol)),
     length pre + 2 + length syms)"
    by simp
  have "Suc (length pre) < length ?ts" and "?ts ! Suc (length pre) = lb1"
    by (simp_all add: nth_append)
  with assms(2) have "consume ?ts (Suc (length pre)) LeftBracket = (Inr lb1, Suc (Suc (length pre)))"
    by (simp add: consume_hit)
  with p show ?thesis by (simp add: advance_def)
qed

lemma expression_lambda_rejects:
  assumes "getTokenType lb0 = LeftBracket" and "getLexeme lam = ''lambda''"
    and "getTokenType lam \<noteq> RightBracket" and "getTokenType lb1 = LeftBracket"
    and "\<forall>s \<in> set syms. getTokenType s = Symbol"
    and "getTokenType bad \<noteq> Symbol" and "getTokenType bad \<noteq> RightBracket"
  shows "expression (Suc (Suc n)) (pre @ lb0 # lam # lb1 # syms @ bad # post) (length pre) =
    Some (Inl (SyntaxError (UnexpectedExpected (getTokenType (last (lb1 # syms))) Symbol)),
      length pre + 3 + length syms)"
proof -
  let ?ts = "pre @ lb0 # lam # lb1 # syms @ bad # post"
  have ts: "?ts = (pre @ [lb0]) @ lam # lb1 # syms @ bad # post" by simp
  have "lambda_form (Suc n) ((pre @ [lb0]) @ lam # lb1 # syms @ bad # post) (length (pre @ [lb0])) =
    Some (Inl (SyntaxError (UnexpectedExpected (getTokenType (last (lb1 # syms))) Symbol)),
      length (pre @ [lb0]) + 2 + length syms)"
    using assms by (intro lambda_form_rejects) simp_all
  then have f: "lambda_form (Suc n) ?ts (Suc (length pre)) =
    Some (Inl (SyntaxError (UnexpectedExpected (getTokenType (last (lb1 # syms))) Symbol)),
      length pre + 3 + length syms)"
    by simp
  have 0: "length pre < length ?ts" "?ts ! length pre = lb0" by simp_all
  have 1: "Suc (length pre) < length ?ts" "?ts ! Suc (length pre) = lam"
    by (simp_all add: nth_append)
  from 0 assms(1) have m0: "match ?ts (length pre) LeftBracket = (Inr True, Suc (length pre))"
    by (simp add: match_hit)
  from 1 assms(3) have m1: "match ?ts (Suc (length pre)) RightBracket = (Inr False, Suc (length pre))"
    by (simp add: match_miss)
  from 1 have p: "peek ?ts (Suc (length pre)) = Some lam" by (simp add: peek_def)
  show ?thesis
    by (subst expression.simps) (simp add: m0 m1 p assms(2) f del: lambda_form.simps)
qed

section \<open>Nested calls\<close>

lemma spec_tokens_head:
  "spec_call s \<Longrightarrow> spec_tokens s \<noteq> [] \<and> getTokenType (hd (spec_tokens s)) \<noteq> RightBracket"
  by (cases s) auto

lemma parses_back_Atom:
  assumes "spec_call (Atom t)"
  shows "parses_back (Atom t)"
  unfolding parses_back_def
proof (intro exI [of _ 1] allI impI)
  fix n :: nat and pre post
  assume "1 \<le> n"
  then obtain m where n: "n = Suc m" by (cases n) auto
  let ?ts = "pre @ spec_tokens (Atom t) @ post"
  have c: "length pre < length ?ts" and t: "?ts ! length pre = t" by simp_all
  from assms have "getTokenType t \<noteq> LeftBracket" by auto
  with c t have m: "match ?ts (length pre) LeftBracket = (Inr False, length pre)"
    by (simp add: match_miss)
  have "atom ?ts (length pre) = (Inr (spec_ast (Atom t)), Suc (length pre))"
  proof (cases "getTokenType t = Symbol")
    case True
    with c t show ?thesis by (simp add: atom_symbol)
  next
    case False
    with assms c t show ?thesis by (simp add: atom_literal_token)
  qed
  with m show "expression n ?ts (length pre) =
      Some (Inr (spec_ast (Atom t)), length pre + length (spec_tokens (Atom t)))"
    unfolding n by (subst expression.simps) simp
qed

lemma expression_loop_parses_back:
  assumes "\<forall>a \<in> set args. spec_call a \<and> parses_back a" and "getTokenType r = RightBracket"
  shows "\<exists>k. \<forall>n \<ge> k. \<forall>pre post xs.
    expression_loop n (pre @ concat (map spec_tokens args) @ r # post) (length pre) xs =
      Some (Inr (xs @ map spec_ast args), Suc (length pre + length (concat (map spec_tokens args))))"
  using assms(1)
proof (induction args)
  case Nil
  show ?case
  proof (intro exI [of _ 1] allI impI)
    fix n :: nat and pre post xs
    assume "1 \<le> n"
    then obtain m where n: "n = Suc m" by (cases n) auto
    let ?ts = "pre @ concat (map spec_tokens []) @ r # post"
    have "length pre < length ?ts" and "?ts ! length pre = r" by simp_all
    with assms(2) have "match ?ts (length pre) RightBracket = (Inr True, Suc (length pre))"
      by (simp add: match_hit)
    then show "expression_loop n ?ts (length pre) xs =
        Some (Inr (xs @ map spec_ast []), Suc (length pre + length (concat (map spec_tokens []))))"
      unfolding n by (subst expression_loop.simps) simp
  qed
next
  case (Cons a args)
  from Cons.prems have a: "spec_call a" "parses_back a" by simp_all
  from a(2) obtain ka where ka: "\<And>n pre post. ka \<le> n \<Longrightarrow>
      expression n (pre @ spec_tokens a @ post) (length pre) =
        Some (Inr (spec_ast a), length pre + length (spec_tokens a))"
    unfolding parses_back_def by blast
  from Cons.prems have "\<forall>a \<in> set args. spec_call a \<and> parses_back a" by simp
  from Cons.IH [OF this] obtain kr where "\<forall>n \<ge> kr. \<forall>pre post xs.
      expression_loop n (pre @ concat (map spec_tokens args) @ r # post) (length pre) xs =
        Some (Inr (xs @ map spec_ast args), Suc (length pre + length (concat (map spec_tokens args))))"
    by (rule exE)
  then have kr: "\<And>n pre post xs. kr \<le> n \<Longrightarrow>
      expression_loop n (pre @ concat (map spec_tokens args) @ r # post) (length pre) xs =
        Some (Inr (xs @ map spec_ast args), Suc (length pre + length (concat (map spec_tokens args))))"
    by blast
  show ?case
  proof (intro exI [of _ "Suc (max ka kr)"] allI impI)
    fix n :: nat and pre post xs
    assume "Suc (max ka kr) \<le> n"
    then obtain m where n: "n = Suc m" and m: "ka \<le> m" "kr \<le> m" by (cases n) auto
    define rest where "rest = concat (map spec_tokens args) @ r # post"
    define ts where "ts = pre @ concat (map spec_tokens (a # args)) @ r # post"
    have ts: "ts = pre @ spec_tokens a @ rest" and ts': "ts = (pre @ spec_tokens a) @ rest"
      by (simp_all add: ts_def rest_def)
    from spec_tokens_head [OF a(1)] have "length pre < length ts"
      and "ts ! length pre = hd (spec_tokens a)"
      by (simp_all add: ts nth_append hd_conv_nth)
    with spec_tokens_head [OF a(1)]
    have match: "match ts (length pre) RightBracket = (Inr False, length pre)"
      by (simp add: match_miss)
    have e: "expression m ts (length pre) = Some (Inr (spec_ast a), length pre + length (spec_tokens a))"
      unfolding ts using m(1) by (rule ka)
    have "expression_loop m ts (length (pre @ spec_tokens a)) (xs @ [spec_ast a]) =
        Some (Inr ((xs @ [spec_ast a]) @ map spec_ast args),
          Suc (length (pre @ spec_tokens a) + length (concat (map spec_tokens args))))"
      unfolding ts' rest_def using m(2) by (rule kr)
    then have l: "expression_loop m ts (length pre + length (spec_tokens a)) (xs @ [spec_ast a]) =
        Some (Inr (xs @ map spec_ast (a # args)),
          Suc (length pre + length (concat (map spec_tokens (a # args)))))"
      by (simp add: add.assoc)
    have "expression_loop (Suc m) ts (length pre) xs =
        Some (Inr (xs @ map spec_ast (a # args)),
          Suc (length pre + length (concat (map spec_tokens (a # args)))))"
      by (subst expression_loop.simps) (simp add: match e l)
    then show "expression_loop n (pre @ concat (map spec_tokens (a # args)) @ r # post) (length pre) xs =
        Some (Inr (xs @ map spec_ast (a # args)),
          Suc (length pre + length (concat (map spec_tokens (a # args)))))"
      unfolding n ts_def .
  qed
qed

lemma parses_back_Form:
  assumes cf: "spec_call (Form l f args r)" and f: "parses_back f"
    and args: "\<forall>a \<in> set args. parses_back a"
  shows "parses_back (Form l f args r)"
proof -
  from f obtain kf where kf: "\<And>n pre post. kf \<le> n \<Longrightarrow>
      expression n (pre @ spec_tokens f @ post) (length pre) =
        Some (Inr (spec_ast f), length pre + length (spec_tokens f))"
    unfolding parses_back_def by blast
  from cf args have "\<forall>a \<in> set args. spec_call a \<and> parses_back a"
    and r: "getTokenType r = RightBracket" by simp_all
  from expression_loop_parses_back [OF this] obtain kr where "\<forall>n \<ge> kr. \<forall>pre post xs.
      expression_loop n (pre @ concat (map spec_tokens args) @ r # post) (length pre) xs =
        Some (Inr (xs @ map spec_ast args), Suc (length pre + length (concat (map spec_tokens args))))"
    by (rule exE)
  then have kr: "\<And>n pre post xs. kr \<le> n \<Longrightarrow>
      expression_loop n (pre @ concat (map spec_tokens args) @ r # post) (length pre) xs =
        Some (Inr (xs @ map spec_ast args), Suc (length pre + length (concat (map spec_tokens args))))"
    by blast
  from cf have head: "spec_tokens f \<noteq> []" "getTokenType (hd (spec_tokens f)) \<noteq> RightBracket"
    "\<not> is_keyword (getLexeme (hd (spec_tokens f)))" and l: "getTokenType l = LeftBracket"
    using spec_tokens_head [of f] by simp_all
  show ?thesis
    unfolding parses_back_def
  proof (intro exI [of _ "Suc (Suc (max kf kr))"] allI impI)
    fix n :: nat and pre post
    assume "Suc (Suc (max kf kr)) \<le> n"
    then obtain m where n: "n = Suc (Suc m)" and m: "kf \<le> m" "kr \<le> m"
      by (cases n; cases "n - 1") auto
    define rest where "rest = concat (map spec_tokens args) @ r # post"
    define ts where "ts = pre @ spec_tokens (Form l f args r) @ post"
    have ts1: "ts = (pre @ [l]) @ spec_tokens f @ rest"
      and ts2: "ts = (pre @ l # spec_tokens f) @ rest"
      by (simp_all add: ts_def rest_def)
    have 0: "length pre < length ts" "ts ! length pre = l"
      by (simp_all add: ts_def)
    from head(1) have 1: "Suc (length pre) < length ts" "ts ! Suc (length pre) = hd (spec_tokens f)"
      by (simp_all add: ts_def nth_append hd_conv_nth)
    from 0 l have m0: "match ts (length pre) LeftBracket = (Inr True, Suc (length pre))"
      by (simp add: match_hit)
    from 1 head(2) have m1: "match ts (Suc (length pre)) RightBracket = (Inr False, Suc (length pre))"
      by (simp add: match_miss)
    from 1 have p: "peek ts (Suc (length pre)) = Some (hd (spec_tokens f))"
      by (simp add: peek_def)
    have "expression m ts (length (pre @ [l])) =
        Some (Inr (spec_ast f), length (pre @ [l]) + length (spec_tokens f))"
      unfolding ts1 using m(1) by (rule kf)
    then have callee: "expression m ts (Suc (length pre)) =
        Some (Inr (spec_ast f), Suc (length pre + length (spec_tokens f)))"
      by simp
    have "expression_loop m ts (length (pre @ l # spec_tokens f)) [] =
        Some (Inr ([] @ map spec_ast args),
          Suc (length (pre @ l # spec_tokens f) + length (concat (map spec_tokens args))))"
      unfolding ts2 rest_def using m(2) by (rule kr)
    then have loop: "expression_loop m ts (Suc (length pre + length (spec_tokens f))) [] =
        Some (Inr (map spec_ast args), length pre + length (spec_tokens (Form l f args r)))"
      by simp
    have c: "call (Suc m) ts (Suc (length pre)) =
        Some (Inr (spec_ast (Form l f args r)), length pre + length (spec_tokens (Form l f args r)))"
      by (subst call.simps) (simp add: callee loop)
    have "expression (Suc (Suc m)) ts (length pre) =
        Some (Inr (spec_ast (Form l f args r)), length pre + length (spec_tokens (Form l f args r)))"
      using head(3)
      by (subst expression.simps) (simp add: m0 m1 p c is_keyword_def del: call.simps)
    then show "expression n (pre @ spec_tokens (Form l f args r) @ post) (length pre) =
        Some (Inr (spec_ast (Form l f args r)), length pre + length (spec_tokens (Form l f args r)))"
      unfolding n ts_def .
  qed
qed

lemma spec_call_parses_back: "spec_call s \<Longrightarrow> parses_back s"
proof (induction s)
  case (Atom t)
  then show ?case by (rule parses_back_Atom)
next
  case (Form l f args r)
  from Form.prems have "spec_call f" and "\<forall>a \<in> set args. spec_call a" by simp_all
  with Form.IH have "parses_back f" and "\<forall>a \<in> set args. parses_back a" by simp_all
  with Form.prems show ?case by (rule parses_back_Form)
qed

section \<open>The claims\<close>

lemmas cursor_defs =
  isAtEnd_def peek_def check_def match_def advance_def previous_def consume_def atom_def
  atom_literal_def

lemma parse_thrown_here: "parse n ts = Some (Inl e, c) \<Longrightarrow> thrown_here ts e c"
proof -
  assume p: "parse n ts = Some (Inl e, c)"
  let ?m = "max n (2 * length ts + 3)"
  from p have "parse ?m ts = Some (Inl e, c)" by (rule parse_mono) simp
  with yieldsD [OF parse_yields [of ts ?m]] show ?thesis by auto
qed

subsection \<open>if without an alternative\<close>

text \<open>
  C1 says that an \<^verbatim>\<open>if\<close> form without alternative parses to an \<^verbatim>\<open>If\<close> node with no
  alternative, that the parser of \<^verbatim>\<open>if\<close> consumes exactly one closing bracket, and that
  \<^verbatim>\<open>(if test consequent)\<close> followed by the end of the input parses. The code does otherwise:
  when no alternative follows, \<^verbatim>\<open>match\<close> has already consumed the closing bracket, and
  \<^verbatim>\<open>consume\<close> then asks for a second one. On \<^verbatim>\<open>(if #t 1)\<close> the parser throws, with a message
  that names the right bracket twice; only with one more closing bracket, \<^verbatim>\<open>(if #t 1))\<close>, does
  it return the node without alternative, having consumed both brackets.
\<close>

theorem if_without_alternative_throws:
  "parse (Suc (Suc (Suc (Suc n))))
     [LP, SYM ''if'', Token Boolean ''#t'' (BooleanValue True), NUM ''1'' 1, RP, EOF]
     = Some (Inl (SyntaxError (UnexpectedExpected RightBracket RightBracket)), 5) \<and>
   parse (Suc (Suc (Suc (Suc n))))
     [LP, SYM ''if'', Token Boolean ''#t'' (BooleanValue True), NUM ''1'' 1, RP, RP, EOF]
     = Some (Inr [IfExpr (LiteralExpr (Decoded (BooleanValue True)))
                    (LiteralExpr (Decoded (NumberValue 1))) None], 6)"
  by (simp add: parse_def cursor_defs)

subsection \<open>The message of consume\<close>

text \<open>
  C2: whenever \<^verbatim>\<open>consume\<close> is called on a token whose type is not the expected one, it throws
  a \<^verbatim>\<open>SyntaxError\<close> whose message names the type of the previous token, the one at
  \<open>current - 1\<close>, and the expected type; the type of the current token is not read. The callers
  of \<^verbatim>\<open>consume\<close> have all consumed a token before, so the cursor is positive. Seen from
  \<^verbatim>\<open>parse\<close>: whenever it throws the message of \<^verbatim>\<open>consume\<close>, the cursor is positive and inside
  the input, the first type named is that of the token before the cursor, and the second is
  a type that the token at the cursor does not have.
\<close>

theorem consume_names_previous_token:
  "(0 < c \<longrightarrow> c < length ts \<longrightarrow> getTokenType (ts ! c) \<noteq> ty \<longrightarrow>
      consume ts c ty =
        (Inl (SyntaxError (UnexpectedExpected (getTokenType (ts ! (c - 1))) ty)), c)) \<and>
   (parse n ts = Some (Inl (SyntaxError (UnexpectedExpected p t)), c') \<longrightarrow>
      0 < c' \<and> c' < length ts \<and> p = getTokenType (ts ! (c' - 1)) \<and> getTokenType (ts ! c') \<noteq> t)"
proof (intro conjI impI)
  assume "0 < c" "c < length ts" "getTokenType (ts ! c) \<noteq> ty"
  then show "consume ts c ty =
      (Inl (SyntaxError (UnexpectedExpected (getTokenType (ts ! (c - 1))) ty)), c)"
    by (simp add: consume_miss)
next
  assume "parse n ts = Some (Inl (SyntaxError (UnexpectedExpected p t)), c')"
  from parse_thrown_here [OF this]
  show "0 < c'" "c' < length ts" "p = getTokenType (ts ! (c' - 1))" "getTokenType (ts ! c') \<noteq> t"
    by (simp_all add: thrown_here_def)
qed

text \<open>
  In \<^verbatim>\<open>(define 1 2)\<close> the name is missing: the current token is a number, the previous one is
  the symbol \<^verbatim>\<open>define\<close>, and the message names the symbol type twice.
\<close>

theorem consume_names_previous_token_witness:
  "(0::nat) < 2 \<and> 2 < length [LP, SYM ''define'', NUM ''1'' 1, NUM ''2'' 2, RP, EOF] \<and>
   getTokenType ([LP, SYM ''define'', NUM ''1'' 1, NUM ''2'' 2, RP, EOF] ! 2) = Number \<and>
   getTokenType ([LP, SYM ''define'', NUM ''1'' 1, NUM ''2'' 2, RP, EOF] ! (2 - 1)) = Symbol \<and>
   consume [LP, SYM ''define'', NUM ''1'' 1, NUM ''2'' 2, RP, EOF] 2 Symbol
     = (Inl (SyntaxError (UnexpectedExpected Symbol Symbol)), 2) \<and>
   parse 3 [LP, SYM ''define'', NUM ''1'' 1, NUM ''2'' 2, RP, EOF]
     = Some (Inl (SyntaxError (UnexpectedExpected Symbol Symbol)), 2)"
  using consume_names_previous_token
    [of 2 "[LP, SYM ''define'', NUM ''1'' 1, NUM ''2'' 2, RP, EOF]" Symbol 3 Symbol Symbol 2]
  by (simp add: eval_nat_numeral parse_def cursor_defs)

subsection \<open>Unmatched brackets\<close>




subsection \<open>Nested calls\<close>

text \<open>
  C4: the tree of a well-formed nested call mirrors the nesting of its brackets, with the
  arguments in the order written. For every nested call \<open>s\<close> as the grammar writes it,
  \<^verbatim>\<open>expression\<close> called at the first token of \<open>s\<close>, wherever \<open>s\<close> stands in the input, returns
  \<open>spec_ast s\<close> with the cursor behind the last token of \<open>s\<close>, and \<^verbatim>\<open>parse\<close> of \<open>s\<close> followed by
  the end of the input returns that one tree. In particular the tokens of
  \<^verbatim>\<open>(+ (+ 1 2) (+ 3 4))\<close> parse to one call of \<^verbatim>\<open>+\<close> whose two arguments are the calls of \<^verbatim>\<open>+\<close>
  on 1 and 2 and on 3 and 4, in that order.
\<close>

theorem nested_calls_mirror_brackets:
  "(spec_call s \<longrightarrow>
      (\<exists>k. \<forall>n \<ge> k.
         (\<forall>pre post. expression n (pre @ spec_tokens s @ post) (length pre) =
            Some (Inr (spec_ast s), length pre + length (spec_tokens s))) \<and>
         (\<forall>eof. getTokenType eof = Eof \<longrightarrow>
            parse n (spec_tokens s @ [eof]) = Some (Inr [spec_ast s], length (spec_tokens s))))) \<and>
   parse (Suc (Suc (Suc (Suc (Suc (Suc (Suc (Suc (Suc (Suc n))))))))))
     [LP, SYM ''+'', LP, SYM ''+'', NUM ''1'' 1, NUM ''2'' 2, RP,
      LP, SYM ''+'', NUM ''3'' 3, NUM ''4'' 4, RP, RP, EOF] =
   Some (Inr [CallExpr (SymbolExpr (SYM ''+''))
     [CallExpr (SymbolExpr (SYM ''+''))
        [LiteralExpr (Decoded (NumberValue 1)), LiteralExpr (Decoded (NumberValue 2))],
      CallExpr (SymbolExpr (SYM ''+''))
        [LiteralExpr (Decoded (NumberValue 3)), LiteralExpr (Decoded (NumberValue 4))]]], 13)"
proof (intro conjI impI)
  assume cf: "spec_call s"
  from spec_call_parses_back [OF cf] obtain k where k: "\<And>n pre post. k \<le> n \<Longrightarrow>
      expression n (pre @ spec_tokens s @ post) (length pre) =
        Some (Inr (spec_ast s), length pre + length (spec_tokens s))"
    unfolding parses_back_def by blast
  show "\<exists>k. \<forall>n \<ge> k.
         (\<forall>pre post. expression n (pre @ spec_tokens s @ post) (length pre) =
            Some (Inr (spec_ast s), length pre + length (spec_tokens s))) \<and>
         (\<forall>eof. getTokenType eof = Eof \<longrightarrow>
            parse n (spec_tokens s @ [eof]) = Some (Inr [spec_ast s], length (spec_tokens s)))"
  proof (intro exI [of _ "Suc (Suc k)"] allI impI conjI)
    fix n pre post
    assume "Suc (Suc k) \<le> n"
    then have "k \<le> n" by simp
    then show "expression n (pre @ spec_tokens s @ post) (length pre) =
        Some (Inr (spec_ast s), length pre + length (spec_tokens s))"
      by (rule k)
  next
    fix n eof
    assume "Suc (Suc k) \<le> n" and eof: "getTokenType eof = Eof"
    then obtain m where n: "n = Suc (Suc m)" and m: "k \<le> Suc m"
      by (cases n; cases "n - 1") auto
    define ts where "ts = spec_tokens s @ [eof]"
    from spec_tokens_head [OF cf] have 0: "0 < length ts" "ts ! 0 = hd (spec_tokens s)"
      by (simp_all add: ts_def nth_append hd_conv_nth)
    have first: "getTokenType (hd (spec_tokens s)) \<noteq> Eof"
      using cf by (cases s) auto
    have "expression (Suc m) ([] @ spec_tokens s @ [eof]) (length ([] :: Token list)) =
        Some (Inr (spec_ast s), length ([] :: Token list) + length (spec_tokens s))"
      using m by (rule k)
    then have e: "expression (Suc m) ts 0 = Some (Inr (spec_ast s), length (spec_tokens s))"
      by (simp add: ts_def)
    have last: "length (spec_tokens s) < length ts" "ts ! length (spec_tokens s) = eof"
      by (simp_all add: ts_def)
    have "parse_loop (Suc m) ts (length (spec_tokens s)) [spec_ast s] =
        Some (Inr [spec_ast s], length (spec_tokens s))"
      using last eof by (simp add: parse_loop_Suc del: parse_loop.simps)
    with 0 first e have "parse (Suc (Suc m)) ts = Some (Inr [spec_ast s], length (spec_tokens s))"
      by (simp add: parse_def parse_loop_Suc [of "Suc m"] del: parse_loop.simps expression.simps)
    then show "parse n (spec_tokens s @ [eof]) = Some (Inr [spec_ast s], length (spec_tokens s))"
      unfolding n ts_def .
  qed
qed (simp add: parse_def cursor_defs)

theorem nested_calls_mirror_brackets_witness:
  "spec_call (Form LP (Atom (SYM ''+''))
     [Form LP (Atom (SYM ''+'')) [Atom (NUM ''1'' 1), Atom (NUM ''2'' 2)] RP,
      Form LP (Atom (SYM ''+'')) [Atom (NUM ''3'' 3), Atom (NUM ''4'' 4)] RP] RP) \<and>
   getTokenType EOF = Eof \<and>
   (\<exists>k. \<forall>n \<ge> k. parse n
     [LP, SYM ''+'', LP, SYM ''+'', NUM ''1'' 1, NUM ''2'' 2, RP,
      LP, SYM ''+'', NUM ''3'' 3, NUM ''4'' 4, RP, RP, EOF] =
   Some (Inr [CallExpr (SymbolExpr (SYM ''+''))
     [CallExpr (SymbolExpr (SYM ''+''))
        [LiteralExpr (Decoded (NumberValue 1)), LiteralExpr (Decoded (NumberValue 2))],
      CallExpr (SymbolExpr (SYM ''+''))
        [LiteralExpr (Decoded (NumberValue 3)), LiteralExpr (Decoded (NumberValue 4))]]], 13))"
proof -
  let ?s = "Form LP (Atom (SYM ''+''))
     [Form LP (Atom (SYM ''+'')) [Atom (NUM ''1'' 1), Atom (NUM ''2'' 2)] RP,
      Form LP (Atom (SYM ''+'')) [Atom (NUM ''3'' 3), Atom (NUM ''4'' 4)] RP] RP"
  have cf: "spec_call ?s" by (simp add: is_keyword_def)
  have eof: "getTokenType EOF = Eof" by simp
  from nested_calls_mirror_brackets [of ?s 0] cf eof obtain k where
    "\<forall>n \<ge> k. parse n (spec_tokens ?s @ [EOF]) = Some (Inr [spec_ast ?s], length (spec_tokens ?s))"
    by blast
  then have "\<forall>n \<ge> k. parse n
     [LP, SYM ''+'', LP, SYM ''+'', NUM ''1'' 1, NUM ''2'' 2, RP,
      LP, SYM ''+'', NUM ''3'' 3, NUM ''4'' 4, RP, RP, EOF] =
   Some (Inr [CallExpr (SymbolExpr (SYM ''+''))
     [CallExpr (SymbolExpr (SYM ''+''))
        [LiteralExpr (Decoded (NumberValue 1)), LiteralExpr (Decoded (NumberValue 2))],
      CallExpr (SymbolExpr (SYM ''+''))
        [LiteralExpr (Decoded (NumberValue 3)), LiteralExpr (Decoded (NumberValue 4))]]], 13)"
    by simp
  with cf eof show ?thesis by blast
qed

subsection \<open>The parameters of lambda\<close>

text \<open>
  C5: a \<^verbatim>\<open>lambda\<close> form whose parameter list contains, after any number of symbols, a token
  that is neither a symbol nor the closing bracket of the list makes \<^verbatim>\<open>expression\<close>, and so
  \<^verbatim>\<open>parse\<close>, throw a \<^verbatim>\<open>SyntaxError\<close>: the one of \<^verbatim>\<open>consume\<close>, thrown at the offending token.
  Consequently, in whatever \<^verbatim>\<open>parse\<close> returns, every \<^verbatim>\<open>Lambda\<close> node has only symbol tokens as
  parameters.
\<close>

theorem lambda_params_are_symbols:
  "(getTokenType lb0 = LeftBracket \<longrightarrow> getLexeme lam = ''lambda'' \<longrightarrow>
    getTokenType lam \<noteq> RightBracket \<longrightarrow> getTokenType lb1 = LeftBracket \<longrightarrow>
    (\<forall>s \<in> set syms. getTokenType s = Symbol) \<longrightarrow>
    getTokenType bad \<noteq> Symbol \<longrightarrow> getTokenType bad \<noteq> RightBracket \<longrightarrow>
      expression (Suc (Suc n)) (pre @ lb0 # lam # lb1 # syms @ bad # post) (length pre) =
        Some (Inl (SyntaxError (UnexpectedExpected (getTokenType (last (lb1 # syms))) Symbol)),
          length pre + 3 + length syms) \<and>
      parse (Suc (Suc (Suc n))) (lb0 # lam # lb1 # syms @ bad # post) =
        Some (Inl (SyntaxError (UnexpectedExpected (getTokenType (last (lb1 # syms))) Symbol)),
          3 + length syms)) \<and>
   (parse m ts = Some (Inr es, c) \<longrightarrow> (\<forall>e \<in> set es. symbol_params e))"
proof (intro conjI impI)
  assume a: "getTokenType lb0 = LeftBracket" "getLexeme lam = ''lambda''"
    "getTokenType lam \<noteq> RightBracket" "getTokenType lb1 = LeftBracket"
    "\<forall>s \<in> set syms. getTokenType s = Symbol"
    "getTokenType bad \<noteq> Symbol" "getTokenType bad \<noteq> RightBracket"
  then show "expression (Suc (Suc n)) (pre @ lb0 # lam # lb1 # syms @ bad # post) (length pre) =
        Some (Inl (SyntaxError (UnexpectedExpected (getTokenType (last (lb1 # syms))) Symbol)),
          length pre + 3 + length syms)"
    by (rule expression_lambda_rejects)
  from a have "expression (Suc (Suc n)) ([] @ lb0 # lam # lb1 # syms @ bad # post)
        (length ([] :: Token list)) =
        Some (Inl (SyntaxError (UnexpectedExpected (getTokenType (last (lb1 # syms))) Symbol)),
          length ([] :: Token list) + 3 + length syms)"
    by (rule expression_lambda_rejects)
  with a(1) show "parse (Suc (Suc (Suc n))) (lb0 # lam # lb1 # syms @ bad # post) =
        Some (Inl (SyntaxError (UnexpectedExpected (getTokenType (last (lb1 # syms))) Symbol)),
          3 + length syms)"
    by (simp add: parse_def parse_loop_Suc del: parse_loop.simps expression.simps)
next
  assume "parse m ts = Some (Inr es, c)"
  then show "\<forall>e \<in> set es. symbol_params e"
    unfolding parse_def by (rule parse_loop_symbol_params) simp
qed

text \<open>
  \<^verbatim>\<open>(lambda (x 1) x)\<close> is rejected at the number; \<^verbatim>\<open>(lambda (x) x)\<close> parses, and its parameter
  is a symbol.
\<close>

theorem lambda_params_are_symbols_witness:
  "getTokenType LP = LeftBracket \<and> getLexeme (SYM ''lambda'') = ''lambda'' \<and>
   getTokenType (SYM ''lambda'') \<noteq> RightBracket \<and> getTokenType (SYM ''x'') = Symbol \<and>
   getTokenType (NUM ''1'' 1) \<noteq> Symbol \<and> getTokenType (NUM ''1'' 1) \<noteq> RightBracket \<and>
   parse 3 [LP, SYM ''lambda'', LP, SYM ''x'', NUM ''1'' 1, RP, SYM ''x'', RP, EOF] =
     Some (Inl (SyntaxError (UnexpectedExpected Symbol Symbol)), 4) \<and>
   parse 5 [LP, SYM ''lambda'', LP, SYM ''x'', RP, SYM ''x'', RP, EOF] =
     Some (Inr [LambdaExpr [SYM ''x''] [SymbolExpr (SYM ''x'')]], 7) \<and>
   symbol_params (LambdaExpr [SYM ''x''] [SymbolExpr (SYM ''x'')])"
  using lambda_params_are_symbols [of LP "SYM ''lambda''" LP "[SYM ''x'']" "NUM ''1'' 1" 0 "[]"
      "[RP, SYM ''x'', RP, EOF]" 5 "[LP, SYM ''lambda'', LP, SYM ''x'', RP, SYM ''x'', RP, EOF]"
      "[LambdaExpr [SYM ''x''] [SymbolExpr (SYM ''x'')]]" 7]
  by (simp add: eval_nat_numeral parse_def cursor_defs lambda_params.simps)

subsection \<open>Empty lambda and let\<close>

text \<open>
  C6: \<^verbatim>\<open>(lambda ())\<close> and \<^verbatim>\<open>(let ())\<close>, with no parameters or bindings and no body, parse to a
  \<^verbatim>\<open>Lambda\<close> and a \<^verbatim>\<open>Let\<close> node whose two sequences are empty; nothing is thrown.
\<close>

theorem empty_lambda_and_let:
  "parse (Suc (Suc (Suc (Suc n))))
     [Token LeftBracket l1 v1, Token Symbol ''lambda'' v2, Token LeftBracket l3 v3,
      Token RightBracket l4 v4, Token RightBracket l5 v5, Token Eof l6 v6]
     = Some (Inr [LambdaExpr [] []], 5) \<and>
   parse (Suc (Suc (Suc (Suc n))))
     [Token LeftBracket l1 v1, Token Symbol ''let'' v2, Token LeftBracket l3 v3,
      Token RightBracket l4 v4, Token RightBracket l5 v5, Token Eof l6 v6]
     = Some (Inr [LetExpr [] []], 5)"
  by (simp add: parse_def cursor_defs lambda_params.simps)

subsection \<open>The empty list\<close>

text \<open>
  C7: an input that is one empty bracket pair and the end of the input parses to a single
  literal whose value is \<^verbatim>\<open>Parser.NULL_VALUE\<close>, and that value is none of the payloads of a
  number, string or boolean token.
\<close>

theorem empty_brackets:
  "parse (Suc (Suc n)) [Token LeftBracket l1 v1, Token RightBracket l2 v2, Token Eof l3 v3]
     = Some (Inr [LiteralExpr NULL_VALUE], 2) \<and>
   (\<forall>v. NULL_VALUE \<noteq> Decoded v)"
  by (simp add: parse_def cursor_defs)

subsection \<open>Termination\<close>

text \<open>
  C8: \<^verbatim>\<open>parse\<close> terminates on every token sequence: \<open>2 * length ts + 3\<close> nested calls are
  always enough, and the result no longer depends on how many more are allowed. On a
  well-formed input it either returns with the cursor on the final end-of-input token, the
  whole input consumed, or throws a \<^verbatim>\<open>SyntaxError\<close>. An \<^verbatim>\<open>expression\<close> that returns has moved
  the cursor forward.
\<close>

theorem parse_terminates:
  "(\<exists>r. \<forall>m. 2 * length ts + 3 \<le> m \<longrightarrow> parse m ts = Some r) \<and>
   (well_formed ts \<longrightarrow> parse n ts = Some (r, c) \<longrightarrow>
      (\<exists>es. r = Inr es \<and> Suc c = length ts) \<or> (\<exists>msg. r = Inl (SyntaxError msg))) \<and>
   (expression n ts c0 = Some (Inr e, c') \<longrightarrow> c0 < c')"
proof (intro conjI impI)
  obtain s c1 where "parse (2 * length ts + 3) ts = Some (s, c1)"
    using yieldsD [OF parse_yields [of ts "2 * length ts + 3"]] by auto
  then have "\<forall>m. 2 * length ts + 3 \<le> m \<longrightarrow> parse m ts = Some (s, c1)"
    by (blast intro: parse_mono)
  then show "\<exists>r. \<forall>m. 2 * length ts + 3 \<le> m \<longrightarrow> parse m ts = Some r" ..
next
  assume wf: "well_formed ts" and p: "parse n ts = Some (r, c)"
  let ?m = "max n (2 * length ts + 3)"
  from p have "parse ?m ts = Some (r, c)" by (rule parse_mono) simp
  with yieldsD [OF parse_yields [of ts ?m]] wf
  show "(\<exists>es. r = Inr es \<and> Suc c = length ts) \<or> (\<exists>msg. r = Inl (SyntaxError msg))"
    by (cases r) (auto intro: error.exhaust)
next
  assume p: "expression n ts c0 = Some (Inr e, c')"
  let ?m = "max n (2 * length ts + 2)"
  from p have "expression ?m ts c0 = Some (Inr e, c')" by (rule expression_mono) simp
  with yieldsD [OF all_yield(1) [of ts c0 "length ts" ?m]]
  show "c0 < c'" by (simp add: post_return_def)
qed

theorem parse_terminates_witness:
  "well_formed [LP, LP, RP, EOF] \<and>
   parse 5 [LP, LP, RP, EOF] = Some (Inl (SyntaxError (Unexpected Eof)), 3) \<and>
   (\<exists>r. \<forall>m. 11 \<le> m \<longrightarrow> parse m [LP, LP, RP, EOF] = Some r) \<and>
   expression 5 [LP, LP, RP, EOF] 1 = Some (Inr (LiteralExpr NULL_VALUE), 3) \<and> (1::nat) < 3"
  using parse_terminates [of "[LP, LP, RP, EOF]" 5 "Inl (SyntaxError (Unexpected Eof))" 3 1
      "LiteralExpr NULL_VALUE" 3]
  by (simp add: well_formed_def is_keyword_def parse_def cursor_defs eval_nat_numeral)

subsection \<open>The cursor stays inside the input\<close>

text \<open>
  C9: on an input whose final element is the one end-of-input token, the cursor never moves
  past that token: whatever \<^verbatim>\<open>parse\<close> does, and whatever \<^verbatim>\<open>expression\<close> does from a cursor
  inside the input, the cursor left behind is inside the input, and what is thrown is never
  the \<^verbatim>\<open>TypeError\<close> of a read outside the token array. (The model turns every read outside
  the array on which a method is called into that \<^verbatim>\<open>TypeError\<close>, and the cursor only ever
  grows, so a cursor inside the input at the end was inside the input all along.)
\<close>

theorem cursor_stays_in_bounds:
  assumes "well_formed ts"
  shows "(parse n ts = Some (r, c) \<longrightarrow> c < length ts \<and> r \<noteq> Inl TypeError) \<and>
         (c0 < length ts \<longrightarrow> expression n ts c0 = Some (r', c') \<longrightarrow>
            c0 \<le> c' \<and> c' < length ts \<and> r' \<noteq> Inl TypeError)"
proof (intro conjI impI)
  assume p: "parse n ts = Some (r, c)"
  let ?m = "max n (2 * length ts + 3)"
  from p have "parse ?m ts = Some (r, c)" by (rule parse_mono) simp
  with yieldsD [OF parse_yields [of ts ?m]] assms
  show "c < length ts" "r \<noteq> Inl TypeError"
    by (auto split: sum.splits)
next
  assume c0: "c0 < length ts" and p: "expression n ts c0 = Some (r', c')"
  let ?m = "max n (2 * length ts + 2)"
  from p have "expression ?m ts c0 = Some (r', c')" by (rule expression_mono) simp
  with yieldsD [OF all_yield(1) [of ts c0 "length ts" ?m]] assms c0
  show "c0 \<le> c'" "c' < length ts" "r' \<noteq> Inl TypeError"
    by (auto simp: post_throw_def post_return_def split: sum.splits)
qed

theorem cursor_stays_in_bounds_witness:
  "well_formed [LP, LP, RP, EOF] \<and>
   parse 5 [LP, LP, RP, EOF] = Some (Inl (SyntaxError (Unexpected Eof)), 3) \<and>
   (3::nat) < length [LP, LP, RP, EOF] \<and>
   expression 5 [LP, LP, RP, EOF] 3 = Some (Inl (SyntaxError (Unexpected Eof)), 3)"
  using cursor_stays_in_bounds [of "[LP, LP, RP, EOF]" 5 "Inl (SyntaxError (Unexpected Eof))" 3
      3 "Inl (SyntaxError (Unexpected Eof))" 3]
  by (simp add: well_formed_def is_keyword_def parse_def cursor_defs eval_nat_numeral)

text \<open>
  The lexeme of the end-of-input token matters here, because the special forms are chosen by
  lexeme alone and move past the token they were chosen by: a token of type \<^verbatim>\<open>Eof\<close> whose
  lexeme read \<^verbatim>\<open>if\<close> would be stepped over. \<open>well_formed\<close> excludes such a token.
\<close>

lemma eof_lexeme_matters:
  "parse (Suc (Suc (Suc (Suc n)))) [LP, Token Eof ''if'' NoValue] = Some (Inl TypeError, 2)"
  by (simp add: parse_def cursor_defs)

subsection \<open>Keywords outside the head position\<close>

text \<open>
  C10: the five keywords are recognised only by the comparison of lexemes that
  \<^verbatim>\<open>expression\<close> makes right after an opening bracket. Where \<^verbatim>\<open>expression\<close> itself is called on
  a symbol token, whatever its lexeme, the result is the \<^verbatim>\<open>Symbol\<close> node of that token; so a
  keyword as the argument of a call is an ordinary symbol.
\<close>

theorem keyword_is_symbol_elsewhere:
  "(c < length ts \<longrightarrow> getTokenType (ts ! c) = Symbol \<longrightarrow>
      expression (Suc n) ts c = Some (Inr (SymbolExpr (ts ! c)), Suc c)) \<and>
   (is_keyword kw \<longrightarrow> \<not> is_keyword f \<longrightarrow>
      parse (Suc (Suc (Suc (Suc (Suc n)))))
        [Token LeftBracket l1 v1, Token Symbol f v2, Token Symbol kw v3, Token RightBracket l4 v4,
         Token Eof l5 v5]
      = Some (Inr [CallExpr (SymbolExpr (Token Symbol f v2)) [SymbolExpr (Token Symbol kw v3)]], 4))"
  by (simp add: parse_def match_miss atom_symbol is_keyword_def)
    (auto simp: cursor_defs)

theorem keyword_is_symbol_elsewhere_witness:
  "(2::nat) < length [LP, SYM ''f'', SYM ''if'', RP, EOF] \<and>
   getTokenType ([LP, SYM ''f'', SYM ''if'', RP, EOF] ! 2) = Symbol \<and>
   expression 1 [LP, SYM ''f'', SYM ''if'', RP, EOF] 2 = Some (Inr (SymbolExpr (SYM ''if'')), 3) \<and>
   is_keyword ''if'' \<and> \<not> is_keyword ''f'' \<and>
   parse 5 [LP, SYM ''f'', SYM ''if'', RP, EOF]
     = Some (Inr [CallExpr (SymbolExpr (SYM ''f'')) [SymbolExpr (SYM ''if'')]], 4)"
  using keyword_is_symbol_elsewhere [of 2 "[LP, SYM ''f'', SYM ''if'', RP, EOF]" 0 "''if''" "''f''"
      "''(''" NoValue NoValue NoValue "'')''" NoValue "[]" NoValue]
  by (simp add: is_keyword_def eval_nat_numeral)

end
